theory Spec2Isabelle
  imports Complex_Main "HOL-Library.AList"
begin

section \<open>The MCTS retrosynthesis tree builder (tree_builder.py)\<close>

text \<open>
  A shallow embedding of \<^verbatim>\<open>askcos/retrosynthetic/mcts/v2/tree_builder.py\<close>.

  Conventions of the model.
  \<^item> Python floats are modelled as reals: rounding, infinities and NaN are not modelled.
  \<^item> The chemistry services (template prioritizer, pricer, fast filter, template
    application) are parameters, collected in the record \<open>adapters\<close>; they are pure
    functions, so an exception raised inside a service is not modelled.
  \<^item> An exception of the engine is a value \<open>Inl e\<close>; the state at the moment of the
    exception is not observable afterwards.
  \<^item> \<^verbatim>\<open>pdb.set_trace()\<close> stops the program at an interactive debugger; the model stops
    there with \<open>DebuggerTrap\<close>.
  \<^item> The networkx graph is an insertion-ordered association list from node identifier to
    the node's attributes and its ordered successor list. Nodes are typed (chemical or
    reaction). Where Python would go on with a node carrying the attributes of both kinds,
    or with an attribute-less node created by \<^verbatim>\<open>add_edge\<close>, the model stops with
    \<open>OutsideModel\<close>.
\<close>

subsection \<open>Errors and Python values\<close>

datatype error =
    KeyError | IndexError | ValueError | AssertionError | AttributeError
  | HasACycle | DebuggerTrap | OutsideModel | OutOfFuel

definition ebind :: "error + 'a \<Rightarrow> ('a \<Rightarrow> error + 'b) \<Rightarrow> error + 'b" where
  "ebind m f = (case m of Inl e \<Rightarrow> Inl e | Inr x \<Rightarrow> f x)"

text \<open>The values the attribute \<^verbatim>\<open>terminal\<close> takes: \<^verbatim>\<open>None\<close>, a bool, or a float.\<close>

datatype pyval = PNone | PBool bool | PNum real

fun truthy :: "pyval \<Rightarrow> bool" where
  "truthy PNone = False"
| "truthy (PBool b) = b"
| "truthy (PNum r) = (r \<noteq> 0)"

subsection \<open>Nodes, graph and engine state\<close>

record attrs =
  reward_avg :: real
  reward_tot :: real
  visit_count :: nat

record chem = attrs +
  explored :: "int list"
  min_depth :: "nat option"
  purchase_price :: "real option"
  templates :: "(int \<times> real) list"
  terminal :: pyval
  chem_done :: "bool option"

record rxn = attrs +
  fast_filter_score :: real
  template_score :: real
  rxn_templates :: "int list"

datatype node = Chemical chem | Reaction rxn

type_synonym digraph = "(string \<times> node \<times> string list) list"

record mcts =
  tree :: digraph
  target :: "string option"
  chemicals :: "string list"
  reactions :: "string list"
  template_max_count :: int
  template_max_cum_prob :: real
  fast_filter_threshold :: real
  max_branching :: int
  max_depth :: int
  exploration_weight :: real
  max_ppg :: "real option"
  expansion_time :: real
  max_chemicals :: "int option"
  max_reactions :: "int option"

record adapters =
  predict :: "string \<Rightarrow> int \<Rightarrow> real \<Rightarrow> real list \<times> int list"
  lookup_smiles :: "string \<Rightarrow> real option"
  fast_filter :: "string \<Rightarrow> string \<Rightarrow> real"
  smarts_ok :: "int \<Rightarrow> bool"
  apply_one_template :: "string \<Rightarrow> int \<Rightarrow> string list list"

text \<open>The engine as \<^verbatim>\<open>MCTS.__init__\<close> leaves it.\<close>

definition init_mcts :: mcts where
  "init_mcts = \<lparr> tree = [], target = None, chemicals = [], reactions = [],
     template_max_count = 100, template_max_cum_prob = 995 / 1000,
     fast_filter_threshold = 75 / 100, max_branching = 10, max_depth = 3,
     exploration_weight = 1, max_ppg = Some 10, expansion_time = 20,
     max_chemicals = None, max_reactions = None \<rparr>"

subsection \<open>Graph access\<close>

text \<open>\<^verbatim>\<open>self.tree.nodes[n]\<close>\<close>

definition node_of :: "mcts \<Rightarrow> string \<Rightarrow> error + node" where
  "node_of s n = (case map_of (tree s) n of None \<Rightarrow> Inl KeyError | Some (d, ss) \<Rightarrow> Inr d)"

text \<open>
  The attributes of a node read as a chemical's. A reaction node has none of the keys
  \<^verbatim>\<open>terminal\<close>, \<^verbatim>\<open>explored\<close>, \<^verbatim>\<open>min_depth\<close>, \<^verbatim>\<open>done\<close>: reading one raises KeyError.
\<close>

definition chem_of :: "mcts \<Rightarrow> string \<Rightarrow> error + chem" where
  "chem_of s n = (case map_of (tree s) n of
       None \<Rightarrow> Inl KeyError
     | Some (Chemical c, ss) \<Rightarrow> Inr c
     | Some (Reaction r, ss) \<Rightarrow> Inl KeyError)"

text \<open>\<^verbatim>\<open>self.tree.successors(n)\<close> and \<^verbatim>\<open>self.tree.out_degree(n)\<close>\<close>

definition successors :: "mcts \<Rightarrow> string \<Rightarrow> error + string list" where
  "successors s n = (case map_of (tree s) n of None \<Rightarrow> Inl KeyError | Some (d, ss) \<Rightarrow> Inr ss)"

definition out_degree :: "mcts \<Rightarrow> string \<Rightarrow> error + nat" where
  "out_degree s n = ebind (successors s n) (\<lambda>ss. Inr (length ss))"

text \<open>Assignment to attributes of an existing node; the successor list is kept.\<close>

definition set_node :: "mcts \<Rightarrow> string \<Rightarrow> node \<Rightarrow> mcts" where
  "set_node s n d = s\<lparr>tree := map (\<lambda>(k, d', ss). if k = n then (k, d, ss) else (k, d', ss)) (tree s)\<rparr>"

text \<open>
  \<^verbatim>\<open>self.tree.add_node(smiles, explored=[], ..., type='chemical', visit_count=0)\<close>:
  a new node is appended; on an existing chemical node every listed attribute is
  overwritten and the key \<^verbatim>\<open>done\<close>, which is not listed, stays.
\<close>

definition add_chemical :: "mcts \<Rightarrow> string \<Rightarrow> chem \<Rightarrow> error + mcts" where
  "add_chemical s n c = (case map_of (tree s) n of
       None \<Rightarrow> Inr (s\<lparr>tree := tree s @ [(n, Chemical c, [])]\<rparr>)
     | Some (Chemical old, ss) \<Rightarrow> Inr (set_node s n (Chemical (c\<lparr>chem_done := chem_done old\<rparr>)))
     | Some (Reaction r, ss) \<Rightarrow> Inl OutsideModel)"

text \<open>\<^verbatim>\<open>self.tree.add_node(reaction_smiles, fast_filter_score=score, ..., type='reaction', visit_count=0)\<close>\<close>

definition add_reaction :: "mcts \<Rightarrow> string \<Rightarrow> rxn \<Rightarrow> error + mcts" where
  "add_reaction s n r = (case map_of (tree s) n of
       None \<Rightarrow> Inr (s\<lparr>tree := tree s @ [(n, Reaction r, [])]\<rparr>)
     | Some (Reaction old, ss) \<Rightarrow> Inr (set_node s n (Reaction r))
     | Some (Chemical c, ss) \<Rightarrow> Inl OutsideModel)"

text \<open>\<^verbatim>\<open>self.tree.add_edge(u, v)\<close>: adding an edge that exists changes nothing.\<close>

definition add_edge :: "mcts \<Rightarrow> string \<Rightarrow> string \<Rightarrow> error + mcts" where
  "add_edge s u v = (case (map_of (tree s) u, map_of (tree s) v) of
       (Some (d, ss), Some x) \<Rightarrow>
         Inr (if v \<in> set ss then s
              else s\<lparr>tree := map (\<lambda>(k, d', ss'). if k = u then (k, d', ss' @ [v]) else (k, d', ss')) (tree s)\<rparr>)
     | _ \<Rightarrow> Inl OutsideModel)"

subsection \<open>Terminal and done\<close>

text \<open>
  \<^verbatim>\<open>is_terminal\<close>: \<^verbatim>\<open>is_buyable = ppg and (ppg <= self.max_ppg)\<close>. Python's \<^verbatim>\<open>and\<close>
  returns its left operand when that is falsy: \<^verbatim>\<open>None\<close> for no price, \<^verbatim>\<open>0.0\<close> for a
  price of zero.
\<close>

definition is_terminal :: "mcts \<Rightarrow> string \<Rightarrow> real option \<Rightarrow> pyval" where
  "is_terminal s smiles ppg = (case max_ppg s of
       None \<Rightarrow> PBool False
     | Some m \<Rightarrow> (case ppg of
           None \<Rightarrow> PNone
         | Some p \<Rightarrow> if p = 0 then PNum p else PBool (p \<le> m)))"

text \<open>\<^verbatim>\<open>all(f(x) for x in xs)\<close>, which stops at the first false value or exception.\<close>

fun all_m :: "('a \<Rightarrow> error + bool) \<Rightarrow> 'a list \<Rightarrow> error + bool" where
  "all_m f [] = Inr True"
| "all_m f (x # xs) = (case f x of Inl e \<Rightarrow> Inl e | Inr b \<Rightarrow> if b then all_m f xs else Inr False)"

text \<open>\<^verbatim>\<open>is_chemical_done(smiles)\<close> with \<^verbatim>\<open>update=False\<close>: the cached attribute.\<close>

definition is_chemical_done :: "mcts \<Rightarrow> string \<Rightarrow> error + bool" where
  "is_chemical_done s smiles = ebind (chem_of s smiles) (\<lambda>data.
     case chem_done data of None \<Rightarrow> Inl KeyError | Some b \<Rightarrow> Inr b)"

definition is_reaction_done :: "mcts \<Rightarrow> string \<Rightarrow> error + bool" where
  "is_reaction_done s smiles = ebind (out_degree s smiles) (\<lambda>n.
     if n > 0 then ebind (successors s smiles) (all_m (is_chemical_done s)) else Inr False)"

text \<open>\<^verbatim>\<open>is_chemical_done(smiles, update=True)\<close>: the value computed and the state with it stored.\<close>

definition compute_done :: "mcts \<Rightarrow> string \<Rightarrow> chem \<Rightarrow> error + bool" where
  "compute_done s smiles data =
     (if truthy (terminal data) then Inr True
      else if length (templates data) = 0 then Inr True
      else if (case min_depth data of None \<Rightarrow> False | Some d \<Rightarrow> max_depth s \<le> int d) then Inr True
      else ebind (out_degree s smiles) (\<lambda>deg.
        if max_branching s \<le> int deg \<or> length (explored data) = length (templates data)
        then ebind (successors s smiles) (all_m (is_reaction_done s))
        else Inr False))"

definition is_chemical_done_update :: "mcts \<Rightarrow> string \<Rightarrow> error + bool \<times> mcts" where
  "is_chemical_done_update s smiles = ebind (chem_of s smiles) (\<lambda>data.
     ebind (compute_done s smiles data) (\<lambda>d.
       Inr (d, set_node s smiles (Chemical (data\<lparr>chem_done := Some d\<rparr>)))))"

subsection \<open>Node factory\<close>

text \<open>\<^verbatim>\<open>{i: p for i, p in zip(indices, probs)}\<close>: a later duplicate key overwrites the value in place.\<close>

definition make_templates :: "int list \<Rightarrow> real list \<Rightarrow> (int \<times> real) list" where
  "make_templates indices probs = foldl (\<lambda>d (i, p). AList.update i p d) [] (zip indices probs)"

definition create_chemical_node :: "adapters \<Rightarrow> mcts \<Rightarrow> string \<Rightarrow> error + mcts" where
  "create_chemical_node a s smiles =
     (let (probs, indices) = predict a smiles (template_max_count s) (template_max_cum_prob s);
          tmpl = make_templates indices probs;
          price = lookup_smiles a smiles;
          term = is_terminal s smiles price
      in ebind (add_chemical (s\<lparr>chemicals := chemicals s @ [smiles]\<rparr>) smiles
            \<lparr> reward_avg = 0, reward_tot = 0, visit_count = 0, explored = [], min_depth = None,
              purchase_price = price, templates = tmpl, terminal = term, chem_done = None \<rparr>)
          (\<lambda>s1. ebind (is_chemical_done_update s1 smiles) (\<lambda>(d, s2). Inr s2)))"

subsection \<open>Selection: UCB\<close>

text \<open>An option of the selection: descend into an existing reaction, or apply a new template.\<close>

datatype task = Rxn string | Tmpl int

text \<open>\<^verbatim>\<open>[templates[t] for t in rxn_data['templates']]\<close>\<close>

fun lookup_all :: "(int \<times> real) list \<Rightarrow> int list \<Rightarrow> error + real list" where
  "lookup_all tmpl [] = Inr []"
| "lookup_all tmpl (t # ts) = (case map_of tmpl t of
       None \<Rightarrow> Inl KeyError
     | Some p \<Rightarrow> (case lookup_all tmpl ts of Inl e \<Rightarrow> Inl e | Inr ps \<Rightarrow> Inr (p # ps)))"

text \<open>
  \<^verbatim>\<open>is_reaction_done(rxn) or len(set(successors(rxn)) & set(path)) > 0\<close>: the test that
  makes the first loop of \<^verbatim>\<open>ucb\<close> skip a reaction.
\<close>

definition ucb_skip :: "mcts \<Rightarrow> string list \<Rightarrow> string \<Rightarrow> error + bool" where
  "ucb_skip s path rxn = ebind (is_reaction_done s rxn) (\<lambda>dn.
     if dn then Inr True
     else ebind (successors s rxn) (\<lambda>ss. Inr (list_ex (\<lambda>c. c \<in> set path) ss)))"

text \<open>
  The first loop of \<^verbatim>\<open>ucb\<close>, over the reaction children: the accumulator is
  \<^verbatim>\<open>max_average_reward\<close> and \<^verbatim>\<open>reaction_options\<close>.
\<close>

fun ucb_reactions :: "mcts \<Rightarrow> (int \<times> real) list \<Rightarrow> nat \<Rightarrow> string list \<Rightarrow> real \<Rightarrow>
    string list \<Rightarrow> real \<times> (real \<times> string) list \<Rightarrow> error + real \<times> (real \<times> string) list" where
  "ucb_reactions s tmpl vc path w [] acc = Inr acc"
| "ucb_reactions s tmpl vc path w (rxn # rest) (m, opts) =
     (case node_of s rxn of Inl e \<Rightarrow> Inl e | Inr rxn_data \<Rightarrow>
      (case ucb_skip s path rxn of Inl e \<Rightarrow> Inl e | Inr skip \<Rightarrow>
        if skip then ucb_reactions s tmpl vc path w rest (m, opts)
        else (case rxn_data of
            Chemical c \<Rightarrow> Inl OutsideModel
          | Reaction r \<Rightarrow>
             (case lookup_all tmpl (rxn_templates r) of Inl e \<Rightarrow> Inl e | Inr ps \<Rightarrow>
               (let average_reward = reward_avg r;
                    q_sa = - average_reward;
                    template_probability = sum_list ps;
                    u_sa = template_probability * real vc / (1 + real (visit_count r));
                    score = q_sa + w * u_sa
                in ucb_reactions s tmpl vc path w rest
                     (max m average_reward, opts @ [(score, rxn)]))))))"

text \<open>The second loop of \<^verbatim>\<open>ucb\<close>, over the templates not yet explored.\<close>

definition ucb_templates :: "(int \<times> real) list \<Rightarrow> int list \<Rightarrow> nat \<Rightarrow> real \<Rightarrow> real \<Rightarrow> (real \<times> int) list" where
  "ucb_templates tmpl expl vc w max_average_reward =
     map (\<lambda>(t, p). (- (max_average_reward + 1 / 10) + w * (p * (1 + sqrt (real vc))), t))
       (filter (\<lambda>(t, p). t \<notin> set expl) tmpl)"

text \<open>\<^verbatim>\<open>xs.sort(key=lambda x: x[0], reverse=True)\<close>: stable, highest score first.\<close>

definition sort_desc :: "(real \<times> 'a) list \<Rightarrow> (real \<times> 'a) list" where
  "sort_desc xs = sort_key (\<lambda>x. - fst x) xs"

definition ucb :: "mcts \<Rightarrow> string \<Rightarrow> string list \<Rightarrow> real \<Rightarrow>
    error + (real \<times> string) list \<times> (real \<times> int) list" where
  "ucb s nd path w = ebind (chem_of s nd) (\<lambda>data.
     ebind (successors s nd) (\<lambda>rs.
     ebind (ucb_reactions s (templates data) (visit_count data) path w rs (0, [])) (\<lambda>(m, reaction_options).
       let template_options = ucb_templates (templates data) (explored data) (visit_count data) w m
       in if reaction_options = [] \<and> template_options = [] then Inl DebuggerTrap
          else Inr (sort_desc reaction_options, sort_desc template_options))))"

subsection \<open>Selection walk\<close>

text \<open>\<^verbatim>\<open>(c for c in self.tree.successors(task) if not self.is_chemical_done(c))\<close>\<close>

fun not_done :: "mcts \<Rightarrow> string list \<Rightarrow> error + string list" where
  "not_done s [] = Inr []"
| "not_done s (c # cs) = (case is_chemical_done s c of Inl e \<Rightarrow> Inl e | Inr d \<Rightarrow>
      (case not_done s cs of Inl e \<Rightarrow> Inl e | Inr r \<Rightarrow> Inr (if d then r else c # r)))"

text \<open>\<^verbatim>\<open>min(xs, key=f)\<close>: the first element whose key is least.\<close>

fun min_by :: "('a \<Rightarrow> nat) \<Rightarrow> 'a \<Rightarrow> 'a list \<Rightarrow> 'a" where
  "min_by f x [] = x"
| "min_by f x (y # ys) = min_by f (if f y < f x then y else x) ys"

definition visits :: "mcts \<Rightarrow> string \<Rightarrow> nat" where
  "visits s n = (case map_of (tree s) n of
       Some (Chemical c, ss) \<Rightarrow> visit_count c
     | Some (Reaction r, ss) \<Rightarrow> visit_count r
     | None \<Rightarrow> 0)"

text \<open>
  The loop of \<^verbatim>\<open>_select\<close>. The fuel bounds the number of iterations; the loop itself
  has no bound.
\<close>

fun select_loop :: "nat \<Rightarrow> mcts \<Rightarrow> string list \<Rightarrow> string list \<Rightarrow>
    error + string list \<times> string list \<times> int" where
  "select_loop 0 s chem_path rxn_path = Inl OutOfFuel"
| "select_loop (Suc n) s chem_path rxn_path =
    (if chem_path = [] then Inl IndexError
     else let leaf = last chem_path in
      (case ucb s leaf chem_path (exploration_weight s) of Inl e \<Rightarrow> Inl e
       | Inr (reaction_options, template_opt) \<Rightarrow>
        (case out_degree s leaf of Inl e \<Rightarrow> Inl e | Inr deg \<Rightarrow>
          (let options = map (\<lambda>(sc, r). (sc, Rxn r)) reaction_options
                 @ (if int deg < max_branching s then map (\<lambda>(sc, t). (sc, Tmpl t)) template_opt else [])
           in (case sort_desc options of
                 [] \<Rightarrow> Inl DebuggerTrap
               | (score, Tmpl t) # rest \<Rightarrow> Inr (chem_path, rxn_path, t)
               | (score, Rxn r) # rest \<Rightarrow>
                  (case successors s r of Inl e \<Rightarrow> Inl e | Inr ss \<Rightarrow>
                    (case not_done s ss of Inl e \<Rightarrow> Inl e
                     | Inr [] \<Rightarrow> Inl ValueError
                     | Inr (c # cs) \<Rightarrow>
                        select_loop n s (chem_path @ [min_by (visits s) c cs]) (rxn_path @ [r]))))))))"

definition select :: "nat \<Rightarrow> mcts \<Rightarrow> error + string list \<times> string list \<times> int" where
  "select fuel s = (case target s of None \<Rightarrow> Inl KeyError | Some t \<Rightarrow> select_loop fuel s [t] [])"

subsection \<open>Expansion\<close>

text \<open>
  \<^verbatim>\<open>_get_precursors\<close>: a template whose reaction SMARTS cannot be initialised
  (\<^verbatim>\<open>ValueError\<close>) gives no precursors.
\<close>

definition get_precursors :: "adapters \<Rightarrow> string \<Rightarrow> int \<Rightarrow> string list list" where
  "get_precursors a chemical template_idx =
     (if smarts_ok a template_idx then apply_one_template a chemical template_idx else [])"

text \<open>\<^verbatim>\<open>'.'.join(reactant_list)\<close>\<close>

fun join_dot :: "string list \<Rightarrow> string" where
  "join_dot [] = []"
| "join_dot [x] = x"
| "join_dot (x # y # ys) = x @ ''.'' @ join_dot (y # ys)"

text \<open>
  The inner loop of \<^verbatim>\<open>_process_precursors\<close> over the reactants of one outcome. The
  flag is true when the loop ended without \<^verbatim>\<open>break\<close>, so that the \<^verbatim>\<open>else\<close> clause
  of the loop runs. A chemical created before the \<^verbatim>\<open>break\<close> stays in the state.
\<close>

fun check_reactants :: "adapters \<Rightarrow> mcts \<Rightarrow> string list \<Rightarrow> string list \<Rightarrow> error + bool \<times> mcts" where
  "check_reactants a s path [] = Inr (True, s)"
| "check_reactants a s path (reactant # rest) =
     (if reactant \<in> set path then Inr (False, s)
      else (case (if reactant \<notin> set (chemicals s) then create_chemical_node a s reactant else Inr s) of
              Inl e \<Rightarrow> Inl e
            | Inr s1 \<Rightarrow> check_reactants a s1 path rest))"

text \<open>\<^verbatim>\<open>for reactant in reactant_list: self.tree.add_edge(reaction_smiles, reactant)\<close>\<close>

fun add_edges :: "mcts \<Rightarrow> string \<Rightarrow> string list \<Rightarrow> error + mcts" where
  "add_edges s reaction_smiles [] = Inr s"
| "add_edges s reaction_smiles (reactant # rest) =
     (case add_edge s reaction_smiles reactant of
        Inl e \<Rightarrow> Inl e
      | Inr s1 \<Rightarrow> add_edges s1 reaction_smiles rest)"

text \<open>
  The branch of \<^verbatim>\<open>_process_precursors\<close> that registers the reaction: an identifier that
  is in \<^verbatim>\<open>self.reactions\<close> gets the template appended and its template score raised;
  any other identifier gets a new reaction node.
\<close>

definition register_reaction :: "mcts \<Rightarrow> string \<Rightarrow> int \<Rightarrow> real \<Rightarrow> real \<Rightarrow> error + mcts" where
  "register_reaction s reaction_smiles template tscore score =
     (if reaction_smiles \<in> set (reactions s)
      then ebind (node_of s reaction_smiles) (\<lambda>d. case d of
             Chemical c \<Rightarrow> Inl AttributeError
           | Reaction r \<Rightarrow> Inr (set_node s reaction_smiles
               (Reaction (r\<lparr>rxn_templates := rxn_templates r @ [template],
                            template_score := max (template_score r) tscore\<rparr>))))
      else add_reaction (s\<lparr>reactions := reactions s @ [reaction_smiles]\<rparr>) reaction_smiles
             \<lparr> reward_avg = 0, reward_tot = 0, visit_count = 0, fast_filter_score = score,
               template_score = tscore, rxn_templates = [template] \<rparr>)"

text \<open>The body of the outer loop of \<^verbatim>\<open>_process_precursors\<close>, for one outcome.\<close>

definition process_outcome :: "adapters \<Rightarrow> mcts \<Rightarrow> string \<Rightarrow> int \<Rightarrow> string list \<Rightarrow> string list \<Rightarrow> error + mcts" where
  "process_outcome a s tgt template path reactant_list =
     (let reactant_smiles = join_dot reactant_list;
          score = fast_filter a reactant_smiles tgt
      in if score < fast_filter_threshold s then Inr s
         else ebind (check_reactants a s path reactant_list) (\<lambda>(completed, s1).
           if \<not> completed then Inr s1
           else let reaction_smiles = reactant_smiles @ ''>>'' @ tgt in
             ebind (node_of s1 tgt) (\<lambda>td. case td of
                 Reaction r \<Rightarrow> Inl OutsideModel
               | Chemical tc \<Rightarrow> (case map_of (templates tc) template of
                     None \<Rightarrow> Inl KeyError
                   | Some tscore \<Rightarrow>
                       ebind (register_reaction s1 reaction_smiles template tscore score) (\<lambda>s2.
                       ebind (add_edge s2 tgt reaction_smiles) (\<lambda>s3.
                         add_edges s3 reaction_smiles reactant_list))))))"

fun process_precursors :: "adapters \<Rightarrow> mcts \<Rightarrow> string \<Rightarrow> int \<Rightarrow> string list list \<Rightarrow> string list \<Rightarrow> error + mcts" where
  "process_precursors a s tgt template [] path = Inr s"
| "process_precursors a s tgt template (reactant_list # rest) path =
     (case process_outcome a s tgt template path reactant_list of
        Inl e \<Rightarrow> Inl e
      | Inr s1 \<Rightarrow> process_precursors a s1 tgt template rest path)"

definition expand :: "adapters \<Rightarrow> mcts \<Rightarrow> string list \<Rightarrow> int \<Rightarrow> error + mcts" where
  "expand a s chem_path template =
     (if chem_path = [] then Inl IndexError
      else let leaf = last chem_path in
        ebind (chem_of s leaf) (\<lambda>data.
          if template \<in> set (explored data) then Inr s
          else let s1 = set_node s leaf (Chemical (data\<lparr>explored := explored data @ [template]\<rparr>));
                   precursors = get_precursors a leaf template
               in process_precursors a s1 leaf template precursors chem_path))"

subsection \<open>Back-update\<close>

text \<open>\<^verbatim>\<open>rxn_data['visit_count'] += 1\<close>, on a node of either kind.\<close>

definition bump_visit :: "mcts \<Rightarrow> string \<Rightarrow> error + mcts" where
  "bump_visit s n = ebind (node_of s n) (\<lambda>d. Inr (set_node s n (case d of
       Chemical c \<Rightarrow> Chemical (c\<lparr>visit_count := visit_count c + 1\<rparr>)
     | Reaction r \<Rightarrow> Reaction (r\<lparr>visit_count := visit_count r + 1\<rparr>))))"

text \<open>
  The loop of \<^verbatim>\<open>_update\<close> over
  \<^verbatim>\<open>zip_longest(range(len(chem_path)-1, -1, -1), reversed(chem_path), reversed(rxn_path))\<close>:
  the chemicals come with their index in the path, deepest first. When the reactions
  outnumber the chemicals, \<^verbatim>\<open>chem\<close> is \<^verbatim>\<open>None\<close> and the node lookup raises KeyError.
\<close>

fun update_loop :: "mcts \<Rightarrow> (string \<times> nat) list \<Rightarrow> string list \<Rightarrow> error + mcts" where
  "update_loop s [] [] = Inr s"
| "update_loop s [] (r # rs) = Inl KeyError"
| "update_loop s ((chem, i) # cs) rs =
     (case chem_of s chem of Inl e \<Rightarrow> Inl e | Inr cd \<Rightarrow>
       (let s1 = set_node s chem (Chemical (cd\<lparr>visit_count := visit_count cd + 1,
                   min_depth := Some (case min_depth cd of None \<Rightarrow> i | Some d \<Rightarrow> min d i)\<rparr>))
        in (case is_chemical_done_update s1 chem of Inl e \<Rightarrow> Inl e | Inr (d, s2) \<Rightarrow>
             (case rs of
                [] \<Rightarrow> update_loop s2 cs []
              | r # rs' \<Rightarrow> (case bump_visit s2 r of Inl e \<Rightarrow> Inl e | Inr s3 \<Rightarrow> update_loop s3 cs rs')))))"

definition update :: "mcts \<Rightarrow> string list \<Rightarrow> string list \<Rightarrow> error + mcts" where
  "update s chem_path rxn_path = (case chem_path of
       [] \<Rightarrow> Inl IndexError
     | c0 # cs \<Rightarrow> if Some c0 \<noteq> target s then Inl AssertionError
                else update_loop s (zip (rev chem_path) (rev [0..<length chem_path])) (rev rxn_path))"

subsection \<open>Rollout and driver\<close>

definition rollout :: "nat \<Rightarrow> adapters \<Rightarrow> mcts \<Rightarrow> error + mcts" where
  "rollout fuel a s = ebind (select fuel s) (\<lambda>(chem_path, rxn_path, template).
     ebind (expand a s chem_path template) (\<lambda>s1. update s1 chem_path rxn_path))"

definition initialize :: "adapters \<Rightarrow> mcts \<Rightarrow> string \<Rightarrow> error + mcts" where
  "initialize a s tgt = ebind (create_chemical_node a (s\<lparr>target := Some tgt\<rparr>) tgt) (\<lambda>s1.
     ebind (chem_of s1 tgt) (\<lambda>c.
       Inr (set_node s1 tgt (Chemical (c\<lparr>terminal := PBool False, chem_done := Some False,
                                          visit_count := visit_count c + 1\<rparr>)))))"

text \<open>The property \<^verbatim>\<open>MCTS.done\<close>.\<close>

definition mcts_done :: "mcts \<Rightarrow> error + bool" where
  "mcts_done s = (case target s of None \<Rightarrow> Inl KeyError | Some t \<Rightarrow>
     ebind (is_chemical_done s t) (\<lambda>d. Inr (d
       \<or> (case max_chemicals s of None \<Rightarrow> False | Some m \<Rightarrow> m \<le> int (length (chemicals s)))
       \<or> (case max_reactions s of None \<Rightarrow> False | Some m \<Rightarrow> m \<le> int (length (reactions s))))))"

text \<open>
  The loop of \<^verbatim>\<open>build_tree\<close>. \<open>clock k\<close> is what the \<open>k\<close>-th call of \<^verbatim>\<open>time.time()\<close>
  returns; the result carries the number of rollouts performed. The first fuel bounds the
  iterations of this loop, the second those of each selection walk.
\<close>

fun build_loop :: "nat \<Rightarrow> nat \<Rightarrow> adapters \<Rightarrow> (nat \<Rightarrow> real) \<Rightarrow> real \<Rightarrow> nat \<Rightarrow> real \<Rightarrow> nat \<Rightarrow> mcts \<Rightarrow>
    error + mcts \<times> nat" where
  "build_loop 0 sfuel a clock start_time k elapsed_time cnt s = Inl OutOfFuel"
| "build_loop (Suc n) sfuel a clock start_time k elapsed_time cnt s =
     (if elapsed_time < expansion_time s
      then (case mcts_done s of Inl e \<Rightarrow> Inl e | Inr d \<Rightarrow>
             if d then Inr (s, cnt)
             else (case rollout sfuel a s of Inl e \<Rightarrow> Inl e | Inr s1 \<Rightarrow>
                    build_loop n sfuel a clock start_time (Suc k) (clock k - start_time) (Suc cnt) s1))
      else Inr (s, cnt))"

definition build_tree :: "nat \<Rightarrow> nat \<Rightarrow> adapters \<Rightarrow> (nat \<Rightarrow> real) \<Rightarrow> mcts \<Rightarrow> string \<Rightarrow> error + mcts \<times> nat" where
  "build_tree fuel sfuel a clock s tgt = ebind (initialize a s tgt) (\<lambda>s1.
     let start_time = clock 0; elapsed_time = clock 1 - start_time
     in build_loop fuel sfuel a clock start_time 2 elapsed_time 0 s1)"

subsection \<open>Path extraction\<close>

text \<open>
  \<^verbatim>\<open>nx.dag_to_branching\<close> belongs to networkx and is a parameter of the model. Its result
  is a forest; each node carries the attribute \<^verbatim>\<open>source\<close>, the node of the graph it
  stands for. The forest is a list of rose trees; the fresh identifiers networkx gives
  the nodes of the forest are pairwise distinct and are not represented. A path, which is
  a subgraph of one tree of the forest, is a rose tree as well.
\<close>

datatype 'a rtree = RNode 'a "'a rtree list"

type_synonym branching = "(string \<times> node) rtree"

text \<open>
  \<^verbatim>\<open>to_branching\<close>: every node of the forest gets the attributes of its source,
  \<^verbatim>\<open>data.update(self.tree.nodes[smiles])\<close>.
\<close>

fun copy_attrs :: "mcts \<Rightarrow> string rtree \<Rightarrow> error + branching"
and copy_attrs_list :: "mcts \<Rightarrow> string rtree list \<Rightarrow> error + branching list" where
  "copy_attrs s (RNode smiles cs) =
     (case node_of s smiles of Inl e \<Rightarrow> Inl e | Inr d \<Rightarrow>
       (case copy_attrs_list s cs of Inl e \<Rightarrow> Inl e | Inr cs' \<Rightarrow> Inr (RNode (smiles, d) cs')))"
| "copy_attrs_list s [] = Inr []"
| "copy_attrs_list s (c # cs) =
     (case copy_attrs s c of Inl e \<Rightarrow> Inl e | Inr c' \<Rightarrow>
       (case copy_attrs_list s cs of Inl e \<Rightarrow> Inl e | Inr cs' \<Rightarrow> Inr (c' # cs')))"

definition to_branching :: "(digraph \<Rightarrow> error + string rtree list) \<Rightarrow> mcts \<Rightarrow> error + branching list" where
  "to_branching dag_to_branching s = ebind (dag_to_branching (tree s)) (copy_attrs_list s)"

text \<open>
  \<^verbatim>\<open>[n for n, s in tree.nodes(data='source') if s == self.target][0]\<close>: the first node,
  depth first, whose source is the target; IndexError when there is none.
\<close>

fun find_source :: "string \<Rightarrow> branching \<Rightarrow> branching option"
and find_source_list :: "string \<Rightarrow> branching list \<Rightarrow> branching option" where
  "find_source t (RNode (src, d) cs) =
     (if src = t then Some (RNode (src, d) cs) else find_source_list t cs)"
| "find_source_list t [] = None"
| "find_source_list t (c # cs) =
     (case find_source t c of Some r \<Rightarrow> Some r | None \<Rightarrow> find_source_list t cs)"

text \<open>
  A generator is the list of the values it yields and, when it ends by raising, the
  exception: the consumer sees the values first.
\<close>

type_synonym 'a gen = "'a list \<times> error option"

text \<open>
  \<^verbatim>\<open>get_paths\<close>. \<open>get_chem_paths\<close> and \<open>get_rxn_paths\<close> are the two inner generators;
  \<open>chem_via_rxns\<close> is the loop of \<open>get_chem_paths\<close> over the reactions of a chemical, and
  \<open>rxn_child_paths\<close> the generators \<^verbatim>\<open>get_chem_paths(c, _depth)\<close> of the children of a
  reaction, which \<^verbatim>\<open>itertools.product\<close> runs to their end, in order, before it yields.
  \<^verbatim>\<open>nx.union_all\<close> of no graph raises ValueError.
\<close>

fun get_chem_paths :: "int option \<Rightarrow> 'a rtree \<Rightarrow> nat \<Rightarrow> 'a rtree gen"
and chem_via_rxns :: "int option \<Rightarrow> 'a \<Rightarrow> 'a rtree list \<Rightarrow> nat \<Rightarrow> 'a rtree gen"
and get_rxn_paths :: "int option \<Rightarrow> 'a rtree \<Rightarrow> nat \<Rightarrow> 'a rtree gen"
and rxn_child_paths :: "int option \<Rightarrow> 'a rtree list \<Rightarrow> nat \<Rightarrow> error + 'a rtree list list" where
  "get_chem_paths md (RNode x cs) depth =
     (if length cs = 0 \<or> (case md of None \<Rightarrow> False | Some m \<Rightarrow> m \<le> int depth)
      then ([RNode x []], None)
      else chem_via_rxns md x cs depth)"
| "chem_via_rxns md x [] depth = ([], None)"
| "chem_via_rxns md x (r # rs) depth =
     (case get_rxn_paths md r (depth + 1) of
        (ps, Some e) \<Rightarrow> (map (\<lambda>sub_path. RNode x [sub_path]) ps, Some e)
      | (ps, None) \<Rightarrow> (case chem_via_rxns md x rs depth of
           (qs, err) \<Rightarrow> (map (\<lambda>sub_path. RNode x [sub_path]) ps @ qs, err)))"
| "get_rxn_paths md (RNode x cs) depth =
     (case rxn_child_paths md cs depth of
        Inl e \<Rightarrow> ([], Some e)
      | Inr pss \<Rightarrow> if cs = [] then ([], Some ValueError)
                   else (map (RNode x) (product_lists pss), None))"
| "rxn_child_paths md [] depth = Inr []"
| "rxn_child_paths md (c # cs) depth =
     (case get_chem_paths md c depth of
        (ps, Some e) \<Rightarrow> Inl e
      | (ps, None) \<Rightarrow> (case rxn_child_paths md cs depth of
           Inl e \<Rightarrow> Inl e
         | Inr pss \<Rightarrow> Inr (ps # pss)))"

definition get_paths :: "'a rtree \<Rightarrow> int option \<Rightarrow> 'a rtree gen" where
  "get_paths root_node md = get_chem_paths md root_node 0"

text \<open>The nodes of a path without successor, left to right.\<close>

fun leaves :: "'a rtree \<Rightarrow> 'a list"
and leaves_list :: "'a rtree list \<Rightarrow> 'a list" where
  "leaves (RNode x cs) = (if cs = [] then [x] else leaves_list cs)"
| "leaves_list [] = []"
| "leaves_list (c # cs) = leaves c @ leaves_list cs"

text \<open>\<^verbatim>\<open>_validate_path\<close>: a reaction node has no key \<^verbatim>\<open>terminal\<close>.\<close>

definition validate_path :: "branching \<Rightarrow> error + bool" where
  "validate_path p = all_m (\<lambda>(src, d). case d of
       Chemical c \<Rightarrow> Inr (truthy (terminal c))
     | Reaction r \<Rightarrow> Inl KeyError) (leaves p)"

text \<open>The generator expression \<^verbatim>\<open>(path for path in get_paths(...) if _validate_path(path))\<close>, run to its end.\<close>

fun validate_all :: "branching list \<Rightarrow> error + branching list" where
  "validate_all [] = Inr []"
| "validate_all (p # ps) =
     (case validate_path p of Inl e \<Rightarrow> Inl e | Inr ok \<Rightarrow>
       (case validate_all ps of Inl e \<Rightarrow> Inl e | Inr vs \<Rightarrow> Inr (if ok then p # vs else vs)))"

definition valid_paths :: "branching gen \<Rightarrow> error + branching list" where
  "valid_paths g = (case g of (ps, err) \<Rightarrow>
     ebind (validate_all ps) (\<lambda>vs. case err of Some e \<Rightarrow> Inl e | None \<Rightarrow> Inr vs))"

text \<open>
  The result of \<^verbatim>\<open>get_buyable_paths\<close>: the nested dictionaries of \<^verbatim>\<open>nx.tree_data\<close>
  for \<^verbatim>\<open>'json'\<close>, the path graphs themselves for \<^verbatim>\<open>'graph'\<close>. Both are the trees.
\<close>

datatype paths = JsonPaths "branching list" | GraphPaths "branching list"

fun paths_of :: "paths \<Rightarrow> branching list" where
  "paths_of (JsonPaths ps) = ps"
| "paths_of (GraphPaths ps) = ps"

definition find_target :: "mcts \<Rightarrow> branching list \<Rightarrow> error + branching" where
  "find_target s forest = (case target s of
       None \<Rightarrow> Inl IndexError
     | Some t \<Rightarrow> (case find_source_list t forest of
           None \<Rightarrow> Inl IndexError
         | Some root_node \<Rightarrow> Inr root_node))"

definition get_buyable_paths :: "(digraph \<Rightarrow> error + string rtree list) \<Rightarrow> mcts \<Rightarrow> string \<Rightarrow> error + paths" where
  "get_buyable_paths dag_to_branching s fmt =
     ebind (to_branching dag_to_branching s) (\<lambda>forest.
     ebind (find_target s forest) (\<lambda>root_node.
       let paths = get_paths root_node (Some (max_depth s))
       in if fmt = ''json'' then ebind (valid_paths paths) (\<lambda>ps. Inr (JsonPaths ps))
          else if fmt = ''graph'' then ebind (valid_paths paths) (\<lambda>ps. Inr (GraphPaths ps))
          else Inl ValueError))"

text \<open>
  The depth of a path, counted as \<^verbatim>\<open>get_paths\<close> counts \<^verbatim>\<open>_depth\<close>: one for every
  reaction between the root and a leaf.
\<close>

fun chem_depth :: "'a rtree \<Rightarrow> nat"
and rxns_depth :: "'a rtree list \<Rightarrow> nat"
and rxn_depth :: "'a rtree \<Rightarrow> nat"
and chems_depth :: "'a rtree list \<Rightarrow> nat" where
  "chem_depth (RNode x rs) = rxns_depth rs"
| "rxns_depth [] = 0"
| "rxns_depth (r # rs) = max (rxn_depth r) (rxns_depth rs)"
| "rxn_depth (RNode x cs) = Suc (chems_depth cs)"
| "chems_depth [] = 0"
| "chems_depth (c # cs) = max (chem_depth c) (chems_depth cs)"

subsection \<open>The score of a new template, in the words of the specification\<close>

text \<open>
  The specification scores an unexplored template \<open>t\<close> of a chemical \<open>c\<close> as
  \<open>-(m + 0.1) + w * templates(c)[t] * (1 + sqrt (visit_count c))\<close>, with \<open>m\<close> the greatest of
  0 and the average rewards of reaction children. \<open>max_reward\<close> is that maximum over a list
  of nodes; \<open>considered\<close> are the reaction children that the first loop of \<open>ucb\<close> does not
  skip.
\<close>

definition reward_of :: "mcts \<Rightarrow> string \<Rightarrow> real" where
  "reward_of s n = (case map_of (tree s) n of
       Some (Chemical c, ss) \<Rightarrow> reward_avg c
     | Some (Reaction r, ss) \<Rightarrow> reward_avg r
     | None \<Rightarrow> 0)"

definition max_reward :: "mcts \<Rightarrow> string list \<Rightarrow> real" where
  "max_reward s xs = Max (set (0 # map (reward_of s) xs))"

definition considered :: "mcts \<Rightarrow> string list \<Rightarrow> string list \<Rightarrow> string list" where
  "considered s path rs = filter (\<lambda>x. ucb_skip s path x = Inr False) rs"

definition template_ucb :: "real \<Rightarrow> real \<Rightarrow> real \<Rightarrow> nat \<Rightarrow> real" where
  "template_ucb w m p vc = - (m + 1 / 10) + w * p * (1 + sqrt (real vc))"

subsection \<open>Reachability from the target\<close>

text \<open>
  The nodes reached from the target along the edges of the graph: the successors are added
  as many times as the graph has nodes.
\<close>

definition succs_of :: "digraph \<Rightarrow> string \<Rightarrow> string list" where
  "succs_of g n = (case map_of g n of None \<Rightarrow> [] | Some (d, ss) \<Rightarrow> ss)"

fun reach :: "nat \<Rightarrow> digraph \<Rightarrow> string list \<Rightarrow> string list" where
  "reach 0 g seen = seen"
| "reach (Suc k) g seen = reach k g (remdups (seen @ concat (map (succs_of g) seen)))"

definition reachable :: "mcts \<Rightarrow> string \<Rightarrow> bool" where
  "reachable s n = (case target s of
       None \<Rightarrow> False
     | Some r \<Rightarrow> n \<in> set (reach (length (tree s)) (tree s) [r]))"

subsection \<open>The states of the engine\<close>

text \<open>
  The states that the engine reaches: an engine with an empty graph, as the constructor and
  \<open>clear\<close> leave it, whatever its configuration; and every state that \<open>_initialize\<close> or a
  rollout returns from such a state. \<open>build_tree\<close> runs \<open>_initialize\<close> once and then
  rollouts.
\<close>

inductive engine_state :: "adapters \<Rightarrow> mcts \<Rightarrow> bool" for a :: adapters where
  cleared: "tree s = [] \<Longrightarrow> engine_state a s"
| initialized: "engine_state a s \<Longrightarrow> initialize a s tgt = Inr s' \<Longrightarrow> engine_state a s'"
| rolled: "engine_state a s \<Longrightarrow> rollout fuel a s = Inr s' \<Longrightarrow> engine_state a s'"

text \<open>The average reward of a node, and the states in which no node has one.\<close>

fun node_reward :: "node \<Rightarrow> real" where
  "node_reward (Chemical c) = reward_avg c"
| "node_reward (Reaction r) = reward_avg r"

definition rewards_zero :: "mcts \<Rightarrow> bool" where
  "rewards_zero s = (\<forall>n. reward_of s n = 0)"

subsection \<open>Concrete scenarios\<close>

text \<open>
  Services for small runs: every molecule has the single template 7 with relevance 1;
  \<^verbatim>\<open>CC\<close> is listed at price 0 and \<^verbatim>\<open>A\<close> at price 5; every outcome passes the fast
  filter. Template 7 turns \<^verbatim>\<open>X\<close> into \<^verbatim>\<open>A\<close>; it has the two outcomes \<^verbatim>\<open>A\<close> and \<^verbatim>\<open>B\<close>
  for \<^verbatim>\<open>Y\<close>; and for \<^verbatim>\<open>Z\<close> it has one outcome, with the reactants \<^verbatim>\<open>A\<close> and \<^verbatim>\<open>Z\<close> itself.
\<close>

definition adapters0 :: adapters where
  "adapters0 = \<lparr> predict = (\<lambda>smiles n p. ([1], [7])),
      lookup_smiles = (\<lambda>smiles. if smiles = ''CC'' then Some 0 else if smiles = ''A'' then Some 5 else None),
      fast_filter = (\<lambda>r p. 9 / 10), smarts_ok = (\<lambda>t. True),
      apply_one_template = (\<lambda>smiles t.
         if smiles = ''X'' then [[''A'']]
         else if smiles = ''Y'' then [[''A''], [''B'']]
         else if smiles = ''Z'' then [[''A'', ''Z'']]
         else []) \<rparr>"

text \<open>
  Services with two templates, 7 and 8, of relevance 0.6 and 0.4, which both turn \<^verbatim>\<open>X\<close>
  into \<^verbatim>\<open>A\<close>.
\<close>

definition adapters_two :: adapters where
  "adapters_two = \<lparr> predict = (\<lambda>smiles n p. ([6 / 10, 4 / 10], [7, 8])),
      lookup_smiles = (\<lambda>smiles. if smiles = ''A'' then Some 5 else None),
      fast_filter = (\<lambda>r p. 9 / 10), smarts_ok = (\<lambda>t. True),
      apply_one_template = (\<lambda>smiles t. if smiles = ''X'' then [[''A'']] else []) \<rparr>"

text \<open>
  The state of the engine with these services after the initialisation on \<^verbatim>\<open>X\<close> and one
  rollout: template 7 has been applied and has given the reaction \<^verbatim>\<open>A>>X\<close>; template 8
  is not explored yet.
\<close>

definition two_template_state :: mcts where
  "two_template_state = init_mcts \<lparr> target := Some ''X'', chemicals := [''X'', ''A''],
     reactions := [''A>>X''],
     tree := [
       (''X'', Chemical \<lparr> reward_avg = 0, reward_tot = 0, visit_count = 2, explored = [7],
                 min_depth = Some 0, purchase_price = None,
                 templates = [(7, 6 / 10), (8, 4 / 10)],
                 terminal = PBool False, chem_done = Some False \<rparr>, [''A>>X'']),
       (''A'', Chemical \<lparr> reward_avg = 0, reward_tot = 0, visit_count = 0, explored = [],
                 min_depth = None, purchase_price = Some 5,
                 templates = [(7, 6 / 10), (8, 4 / 10)],
                 terminal = PBool True, chem_done = Some True \<rparr>, []),
       (''A>>X'', Reaction \<lparr> reward_avg = 0, reward_tot = 0, visit_count = 0,
                 fast_filter_score = 9 / 10, template_score = 6 / 10, rxn_templates = [7] \<rparr>, [''A''])] \<rparr>"

text \<open>
  The state in which the second template is being applied to \<^verbatim>\<open>X\<close>, the reaction
  \<^verbatim>\<open>A>>X\<close> being known from the first.
\<close>

definition merge_state :: mcts where
  "merge_state = init_mcts \<lparr> target := Some ''X'', chemicals := [''X'', ''A''],
     reactions := [''A>>X''],
     tree := [
       (''X'', Chemical \<lparr> reward_avg = 0, reward_tot = 0, visit_count = 2, explored = [7, 8],
                 min_depth = Some 0, purchase_price = None,
                 templates = [(7, 6 / 10), (8, 4 / 10)],
                 terminal = PBool False, chem_done = Some False \<rparr>, [''A>>X'']),
       (''A'', Chemical \<lparr> reward_avg = 0, reward_tot = 0, visit_count = 0, explored = [],
                 min_depth = None, purchase_price = Some 5,
                 templates = [(7, 6 / 10), (8, 4 / 10)],
                 terminal = PBool True, chem_done = Some True \<rparr>, []),
       (''A>>X'', Reaction \<lparr> reward_avg = 0, reward_tot = 0, visit_count = 0,
                 fast_filter_score = 9 / 10, template_score = 6 / 10, rxn_templates = [7] \<rparr>, [''A''])] \<rparr>"

text \<open>Services that know no template and no price.\<close>

definition adapters_none :: adapters where
  "adapters_none = \<lparr> predict = (\<lambda>smiles n p. ([], [])), lookup_smiles = (\<lambda>smiles. None),
      fast_filter = (\<lambda>r p. 9 / 10), smarts_ok = (\<lambda>t. True),
      apply_one_template = (\<lambda>smiles t. []) \<rparr>"

text \<open>
  A stand-in for \<^verbatim>\<open>nx.dag_to_branching\<close> on acyclic graphs: every node without
  predecessor is unfolded into the tree of the paths that start at it. A walk longer than
  the number of nodes shows a cycle.
\<close>

fun unfold_node :: "nat \<Rightarrow> digraph \<Rightarrow> string \<Rightarrow> string rtree option" where
  "unfold_node 0 g n = None"
| "unfold_node (Suc k) g n = (case map_of g n of
       None \<Rightarrow> None
     | Some (d, ss) \<Rightarrow> map_option (RNode n) (those (map (unfold_node k g) ss)))"

definition unfold_dag :: "digraph \<Rightarrow> error + string rtree list" where
  "unfold_dag g =
     (let sources = filter (\<lambda>n. \<not> list_ex (\<lambda>(m, d, ss). n \<in> set ss) g) (map fst g)
      in case those (map (unfold_node (length g) g) sources) of
           None \<Rightarrow> Inl HasACycle
         | Some forest \<Rightarrow> Inr forest)"

text \<open>
  The one-step route: the state that \<open>build_tree\<close> reaches for the target \<^verbatim>\<open>X\<close> with the
  services \<open>adapters0\<close>, and its only path, \<^verbatim>\<open>X\<close> made from \<^verbatim>\<open>A\<close> by the reaction \<^verbatim>\<open>A>>X\<close>.
\<close>

definition one_step_state :: mcts where
  "one_step_state = init_mcts \<lparr> target := Some ''X'', chemicals := [''X'', ''A''],
     reactions := [''A>>X''],
     tree := [
       (''X'', Chemical \<lparr> reward_avg = 0, reward_tot = 0, visit_count = 2, explored = [7],
                 min_depth = Some 0, purchase_price = None, templates = [(7, 1)],
                 terminal = PBool False, chem_done = Some True \<rparr>, [''A>>X'']),
       (''A'', Chemical \<lparr> reward_avg = 0, reward_tot = 0, visit_count = 0, explored = [],
                 min_depth = None, purchase_price = Some 5, templates = [(7, 1)],
                 terminal = PBool True, chem_done = Some True \<rparr>, []),
       (''A>>X'', Reaction \<lparr> reward_avg = 0, reward_tot = 0, visit_count = 0,
                 fast_filter_score = 9 / 10, template_score = 1, rxn_templates = [7] \<rparr>, [''A''])] \<rparr>"

definition one_step_path :: branching where
  "one_step_path =
     RNode (''X'', Chemical \<lparr> reward_avg = 0, reward_tot = 0, visit_count = 2, explored = [7],
                 min_depth = Some 0, purchase_price = None, templates = [(7, 1)],
                 terminal = PBool False, chem_done = Some True \<rparr>)
       [RNode (''A>>X'', Reaction \<lparr> reward_avg = 0, reward_tot = 0, visit_count = 0,
                 fast_filter_score = 9 / 10, template_score = 1, rxn_templates = [7] \<rparr>)
          [RNode (''A'', Chemical \<lparr> reward_avg = 0, reward_tot = 0, visit_count = 0, explored = [],
                 min_depth = None, purchase_price = Some 5, templates = [(7, 1)],
                 terminal = PBool True, chem_done = Some True \<rparr>) []]]"

text \<open>The state that the initialisation leaves for the target \<^verbatim>\<open>X\<close> when the services know no template.\<close>

definition bare_target_state :: mcts where
  "bare_target_state = init_mcts \<lparr> target := Some ''X'', chemicals := [''X''],
     tree := [(''X'', Chemical \<lparr> reward_avg = 0, reward_tot = 0, visit_count = 1, explored = [],
                 min_depth = None, purchase_price = None, templates = [],
                 terminal = PBool False, chem_done = Some False \<rparr>, [])] \<rparr>"

section \<open>Properties\<close>

subsection \<open>Basic facts\<close>

lemma ebind_Inl [simp]: "ebind (Inl e) f = Inl e"
  by (simp add: ebind_def)

lemma ebind_Inr [simp]: "ebind (Inr x) f = f x"
  by (simp add: ebind_def)

lemma ebind_eq_Inr: "ebind m f = Inr y \<longleftrightarrow> (\<exists>x. m = Inr x \<and> f x = Inr y)"
  by (cases m) auto

lemma map_of_set_attrs:
  "map_of (map (\<lambda>(k, d', ss). if k = n then (k, d, ss) else (k, d', ss)) t) k
     = (if k = n then map_option (\<lambda>(d', ss). (d, ss)) (map_of t n) else map_of t k)"
  by (induction t) auto

lemma map_of_set_node:
  "map_of (tree (set_node s n d)) k
     = (if k = n then map_option (\<lambda>(d', ss). (d, ss)) (map_of (tree s) n) else map_of (tree s) k)"
  by (simp add: set_node_def map_of_set_attrs)

lemma add_chemical_chem_of:
  assumes "add_chemical s n c = Inr s1"
  shows "\<exists>c1. chem_of s1 n = Inr c1 \<and> terminal c1 = terminal c \<and> templates c1 = templates c
     \<and> visit_count c1 = visit_count c \<and> explored c1 = explored c \<and> min_depth c1 = min_depth c
     \<and> purchase_price c1 = purchase_price c"
  using assms
  by (auto simp: add_chemical_def chem_of_def map_of_set_node map_add_def
           split: option.splits node.splits prod.splits)

lemma is_chemical_done_update_chem_of:
  assumes "is_chemical_done_update s n = Inr (d, s')"
  shows "\<exists>c. chem_of s n = Inr c \<and> compute_done s n c = Inr d \<and> chem_of s' n = Inr (c\<lparr>chem_done := Some d\<rparr>)"
  using assms
  by (auto simp: is_chemical_done_update_def ebind_eq_Inr chem_of_def map_of_set_node
           split: option.splits node.splits prod.splits)

lemma create_chemical_node_attrs:
  assumes "create_chemical_node a s smiles = Inr s'"
  shows "\<exists>c. chem_of s' smiles = Inr c
     \<and> terminal c = is_terminal s smiles (lookup_smiles a smiles)
     \<and> templates c = make_templates (snd (predict a smiles (template_max_count s) (template_max_cum_prob s)))
                                     (fst (predict a smiles (template_max_count s) (template_max_cum_prob s)))
     \<and> visit_count c = 0 \<and> explored c = [] \<and> min_depth c = None
     \<and> purchase_price c = lookup_smiles a smiles"
proof -
  obtain probs indices where
    pr: "predict a smiles (template_max_count s) (template_max_cum_prob s) = (probs, indices)"
    by (cases "predict a smiles (template_max_count s) (template_max_cum_prob s)")
  from assms pr obtain s1 d c0 where
    1: "add_chemical (s\<lparr>chemicals := chemicals s @ [smiles]\<rparr>) smiles c0 = Inr s1"
    and c0: "terminal c0 = is_terminal s smiles (lookup_smiles a smiles)"
        "templates c0 = make_templates indices probs"
        "visit_count c0 = 0" "explored c0 = []" "min_depth c0 = None"
        "purchase_price c0 = lookup_smiles a smiles"
    and 2: "is_chemical_done_update s1 smiles = Inr (d, s')"
    by (auto simp: create_chemical_node_def ebind_eq_Inr Let_def)
  from add_chemical_chem_of[OF 1] is_chemical_done_update_chem_of[OF 2] c0 pr
  show ?thesis by auto
qed

text \<open>The definitions a concrete run unfolds.\<close>

lemmas graph_defs = chem_of_def node_of_def successors_def out_degree_def set_node_def
  add_chemical_def add_reaction_def add_edge_def

lemmas create_defs = create_chemical_node_def make_templates_def is_terminal_def
  is_chemical_done_update_def compute_done_def is_reaction_done_def is_chemical_done_def

lemmas run_defs = adapters0_def init_mcts_def graph_defs create_defs
  ucb_def ucb_skip_def ucb_templates_def sort_desc_def select_def visits_def
  expand_def get_precursors_def process_outcome_def register_reaction_def
  update_def bump_visit_def rollout_def initialize_def mcts_done_def build_tree_def Let_def

text \<open>What the node factory and the initialisation leave untouched.\<close>

lemma add_chemical_frame:
  "add_chemical s n c = Inr s1 \<Longrightarrow> s1 = s\<lparr>tree := tree s1\<rparr>"
  by (auto simp: add_chemical_def set_node_def split: option.splits node.splits prod.splits)

lemma is_chemical_done_update_frame:
  "is_chemical_done_update s n = Inr (d, s1) \<Longrightarrow> s1 = s\<lparr>tree := tree s1\<rparr>"
  by (auto simp: is_chemical_done_update_def ebind_eq_Inr set_node_def)

lemma create_chemical_node_frame:
  assumes "create_chemical_node a s x = Inr s'"
  shows "s' = s\<lparr>tree := tree s', chemicals := chemicals s @ [x]\<rparr>"
proof -
  from assms obtain s1 d c0 where
    1: "add_chemical (s\<lparr>chemicals := chemicals s @ [x]\<rparr>) x c0 = Inr s1"
    and 2: "is_chemical_done_update s1 x = Inr (d, s')"
    by (auto simp: create_chemical_node_def ebind_eq_Inr Let_def split: prod.splits)
  from add_chemical_frame[OF 1] is_chemical_done_update_frame[OF 2]
  show ?thesis
    by (metis (no_types, lifting) mcts.surjective mcts.update_convs(1) mcts.update_convs(3))
qed

lemma initialize_facts:
  assumes "initialize a s tgt = Inr s'"
  shows "s' = s\<lparr>tree := tree s', target := Some tgt, chemicals := chemicals s @ [tgt]\<rparr>"
    and "\<exists>c. chem_of s' tgt = Inr c \<and> terminal c = PBool False \<and> chem_done c = Some False
          \<and> visit_count c = 1 \<and> purchase_price c = lookup_smiles a tgt"
proof -
  from assms obtain s1 c1 where
    1: "create_chemical_node a (s\<lparr>target := Some tgt\<rparr>) tgt = Inr s1"
    and 2: "chem_of s1 tgt = Inr c1"
    and 3: "s' = set_node s1 tgt (Chemical (c1\<lparr>terminal := PBool False, chem_done := Some False,
                                          visit_count := visit_count c1 + 1\<rparr>))"
    by (auto simp: initialize_def ebind_eq_Inr)
  from create_chemical_node_frame[OF 1] 3
  show "s' = s\<lparr>tree := tree s', target := Some tgt, chemicals := chemicals s @ [tgt]\<rparr>"
    by (simp add: set_node_def)
       (metis (no_types, lifting) mcts.surjective mcts.update_convs(1) mcts.update_convs(2,3))
  from create_chemical_node_attrs[OF 1] 2
  have "visit_count c1 = 0" "purchase_price c1 = lookup_smiles a tgt" by auto
  with 2 3 show "\<exists>c. chem_of s' tgt = Inr c \<and> terminal c = PBool False \<and> chem_done c = Some False
      \<and> visit_count c = 1 \<and> purchase_price c = lookup_smiles a tgt"
    by (auto simp: chem_of_def map_of_set_node split: option.splits node.splits prod.splits)
qed

text \<open>The counter of rollouts only grows.\<close>

lemma build_loop_count:
  "build_loop fuel sfuel a clock st k el cnt s = Inr (s', n) \<Longrightarrow> cnt \<le> n"
proof (induction fuel arbitrary: k el cnt s)
  case 0
  then show ?case by simp
next
  case (Suc fuel)
  then show ?case
    by (fastforce split: if_splits sum.splits)
qed

subsection \<open>C3: the terminal attribute\<close>

text \<open>
  C3, as stated: a chemical node is terminal exactly when its price is not null and at most
  \<open>max_ppg\<close>, a price of 0 included. The statement fails at price 0: \<^verbatim>\<open>ppg and (ppg <= max_ppg)\<close>
  is then \<^verbatim>\<open>0.0\<close>, which is falsy. With the default \<open>max_ppg = 10\<close>, the node created
  for a molecule listed at price 0 carries \<open>terminal = 0.0\<close>.
\<close>

theorem zero_price_not_terminal:
  "ebind (create_chemical_node adapters0 init_mcts ''CC'')
         (\<lambda>s'. ebind (chem_of s' ''CC'') (\<lambda>c. Inr (terminal c, truthy (terminal c))))
     = Inr (PNum 0, False)"
  by (simp add: adapters0_def init_mcts_def graph_defs create_defs)

text \<open>
  C3, amended: the node that \<open>create_chemical_node\<close> creates has a truthy \<open>terminal\<close>
  attribute exactly when \<open>max_ppg\<close> is set and the price looked up is not null, not zero
  and at most \<open>max_ppg\<close>.
\<close>

theorem terminal_iff_priced_nonzero:
  assumes "create_chemical_node a s smiles = Inr s'"
  shows "\<exists>c. chem_of s' smiles = Inr c \<and>
     (truthy (terminal c) \<longleftrightarrow>
        (\<exists>m p. max_ppg s = Some m \<and> lookup_smiles a smiles = Some p \<and> p \<noteq> 0 \<and> p \<le> m))"
proof -
  from create_chemical_node_attrs[OF assms] obtain c where
    c: "chem_of s' smiles = Inr c" "terminal c = is_terminal s smiles (lookup_smiles a smiles)"
    by blast
  have "truthy (is_terminal s smiles (lookup_smiles a smiles)) \<longleftrightarrow>
        (\<exists>m p. max_ppg s = Some m \<and> lookup_smiles a smiles = Some p \<and> p \<noteq> 0 \<and> p \<le> m)"
    by (auto simp: is_terminal_def split: option.splits)
  with c show ?thesis by auto
qed

text \<open>The amended statement at the molecule \<^verbatim>\<open>A\<close>, listed at price 5: its node is terminal.\<close>

theorem terminal_iff_priced_nonzero_witness:
  "\<exists>s' c. create_chemical_node adapters0 init_mcts ''A'' = Inr s' \<and> chem_of s' ''A'' = Inr c
      \<and> truthy (terminal c)"
proof -
  obtain s' where s': "create_chemical_node adapters0 init_mcts ''A'' = Inr s'"
    by (simp add: adapters0_def init_mcts_def graph_defs create_defs)
  have "\<exists>m p. max_ppg init_mcts = Some m \<and> lookup_smiles adapters0 ''A'' = Some p \<and> p \<noteq> 0 \<and> p \<le> m"
    by (simp add: init_mcts_def adapters0_def)
  with terminal_iff_priced_nonzero[OF s'] s' show ?thesis by blast
qed

subsection \<open>C1: a buyable target\<close>

text \<open>
  C1, as stated: a target whose price is not null and at most \<open>max_ppg\<close> is terminal and
  done after initialisation, and \<open>build_tree\<close> performs no rollout. The statement fails for
  the target \<^verbatim>\<open>A\<close>, listed at price 5 with \<open>max_ppg = 10\<close>: \<open>_initialize\<close> overwrites
  \<open>terminal\<close> and \<open>done\<close> with \<^verbatim>\<open>False\<close>, and \<open>build_tree\<close> performs one rollout.
\<close>

theorem buyable_target_is_expanded:
  "ebind (initialize adapters0 init_mcts ''A'')
         (\<lambda>s. ebind (chem_of s ''A'') (\<lambda>c. Inr (purchase_price c, terminal c, chem_done c)))
     = Inr (Some 5, PBool False, Some False)
   \<and> ebind (build_tree (Suc (Suc 0)) (Suc 0) adapters0 (\<lambda>k. 0) init_mcts ''A'') (\<lambda>(s, n). Inr n)
     = Inr (Suc 0)"
  by (simp add: run_defs)

text \<open>
  C1, amended: after initialisation the target is marked \<open>terminal = False\<close> and
  \<open>done = False\<close> with \<open>visit_count = 1\<close>, whatever its price; the engine is then done
  only through the caps \<open>max_chemicals\<close> and \<open>max_reactions\<close>, and a \<open>build_tree\<close> that
  returns with time left at the first test of its loop and no cap set has performed at least
  one rollout.
\<close>

theorem initialize_resets_target:
  assumes "initialize a s tgt = Inr s'"
  shows "(\<exists>c. chem_of s' tgt = Inr c \<and> terminal c = PBool False \<and> chem_done c = Some False
            \<and> visit_count c = 1 \<and> purchase_price c = lookup_smiles a tgt)
       \<and> mcts_done s' = Inr ((case max_chemicals s of None \<Rightarrow> False
                                | Some m \<Rightarrow> m \<le> int (length (chemicals s)) + 1)
                            \<or> (case max_reactions s of None \<Rightarrow> False
                                | Some m \<Rightarrow> m \<le> int (length (reactions s))))
       \<and> (\<forall>fuel sfuel clock s'' n.
             build_tree fuel sfuel a clock s tgt = Inr (s'', n) \<and> clock 1 - clock 0 < expansion_time s
               \<and> max_chemicals s = None \<and> max_reactions s = None \<longrightarrow> 1 \<le> n)"
proof -
  note f = initialize_facts[OF assms]
  from f(2) obtain c where c: "chem_of s' tgt = Inr c" "chem_done c = Some False" by blast
  have fr: "target s' = Some tgt" "max_chemicals s' = max_chemicals s"
    "max_reactions s' = max_reactions s" "chemicals s' = chemicals s @ [tgt]"
    "reactions s' = reactions s" "expansion_time s' = expansion_time s"
    by (subst f(1), simp)+
  have d: "mcts_done s' = Inr ((case max_chemicals s of None \<Rightarrow> False
                                | Some m \<Rightarrow> m \<le> int (length (chemicals s)) + 1)
                            \<or> (case max_reactions s of None \<Rightarrow> False
                                | Some m \<Rightarrow> m \<le> int (length (reactions s))))"
    using c fr by (auto simp: mcts_done_def is_chemical_done_def split: option.splits)
  have "1 \<le> n"
    if b: "build_tree fuel sfuel a clock s tgt = Inr (s'', n)"
      and t: "clock 1 - clock 0 < expansion_time s"
      and m: "max_chemicals s = None" "max_reactions s = None" for fuel sfuel clock s'' n
  proof -
    from b assms
    have bl: "build_loop fuel sfuel a clock (clock 0) 2 (clock 1 - clock 0) 0 s' = Inr (s'', n)"
      by (simp add: build_tree_def Let_def)
    then obtain fuel' where fu: "fuel = Suc fuel'" by (cases fuel) auto
    from d m have d': "mcts_done s' = Inr False" by simp
    from bl fu t fr d' obtain s1 where
      "build_loop fuel' sfuel a clock (clock 0) 3 (clock 2 - clock 0) (Suc 0) s1 = Inr (s'', n)"
      by (auto split: sum.splits simp: numeral_3_eq_3 numeral_2_eq_2)
    from build_loop_count[OF this] show ?thesis by simp
  qed
  with f(2) d show ?thesis by blast
qed

text \<open>The amended statement at the buyable target \<^verbatim>\<open>A\<close>, with a clock that stands still.\<close>

theorem initialize_resets_target_witness:
  "\<exists>s' c s'' n. initialize adapters0 init_mcts ''A'' = Inr s' \<and> chem_of s' ''A'' = Inr c
      \<and> terminal c = PBool False \<and> chem_done c = Some False \<and> visit_count c = 1
      \<and> purchase_price c = Some 5 \<and> mcts_done s' = Inr False
      \<and> build_tree (Suc (Suc 0)) (Suc 0) adapters0 (\<lambda>k. 0) init_mcts ''A'' = Inr (s'', n) \<and> 1 \<le> n"
proof -
  obtain s' where init: "initialize adapters0 init_mcts ''A'' = Inr s'"
    by (simp add: run_defs)
  obtain s'' n where
    run: "build_tree (Suc (Suc 0)) (Suc 0) adapters0 (\<lambda>k. 0) init_mcts ''A'' = Inr (s'', n)"
    by (simp add: run_defs)
  have cfg: "(0::real) - 0 < expansion_time init_mcts" "max_chemicals init_mcts = None"
    "max_reactions init_mcts = None" "lookup_smiles adapters0 ''A'' = Some 5"
    by (simp_all add: init_mcts_def adapters0_def)
  note th = initialize_resets_target[OF init]
  from th have c: "\<exists>c. chem_of s' ''A'' = Inr c \<and> terminal c = PBool False \<and> chem_done c = Some False
            \<and> visit_count c = 1 \<and> purchase_price c = lookup_smiles adapters0 ''A''"
    by blast
  from th cfg have d: "mcts_done s' = Inr False"
    by simp
  from th have "\<forall>fuel sfuel clock s'' n.
      build_tree fuel sfuel adapters0 clock init_mcts ''A'' = Inr (s'', n)
        \<and> clock 1 - clock 0 < expansion_time init_mcts
        \<and> max_chemicals init_mcts = None \<and> max_reactions init_mcts = None \<longrightarrow> 1 \<le> n"
    by blast
  from this[rule_format, of "Suc (Suc 0)" "Suc 0" "\<lambda>k. 0" s'' n] run cfg have "1 \<le> n"
    by simp
  with c d init run cfg show ?thesis
    by auto
qed

subsection \<open>C4: a target without templates\<close>

text \<open>
  C4: a target whose template mapping is empty is done right after the initialisation of
  \<open>build_tree\<close>, and no rollout takes place. The code does otherwise. On a fresh engine
  whose services know no template and no price, \<open>create_chemical_node\<close> marks the target
  \<^verbatim>\<open>X\<close> done, as a chemical without template to expand; \<open>_initialize\<close> then resets \<open>done\<close>
  to false, so that after the initialisation the target, still without template, is not
  done; and \<open>build_tree\<close> enters a rollout, in which \<open>ucb\<close> finds no option and stops at the
  debugger: the call returns no tree.
\<close>

theorem no_templates_target_not_done:
  "ebind (create_chemical_node adapters_none (init_mcts\<lparr>target := Some ''X''\<rparr>) ''X'')
         (\<lambda>s. ebind (chem_of s ''X'') (\<lambda>c. Inr (templates c, chem_done c)))
     = Inr ([], Some True)
   \<and> ebind (initialize adapters_none init_mcts ''X'')
         (\<lambda>s. ebind (chem_of s ''X'') (\<lambda>c. Inr (templates c, chem_done c)))
     = Inr ([], Some False)
   \<and> build_tree (Suc 0) (Suc 0) adapters_none (\<lambda>k. 0) init_mcts ''X'' = Inl DebuggerTrap"
  by (simp add: run_defs adapters_none_def)

subsection \<open>The one-step route\<close>

lemmas path_defs = get_buyable_paths_def to_branching_def find_target_def get_paths_def
  valid_paths_def validate_path_def unfold_dag_def

lemma build_tree_one_step:
  "build_tree (Suc (Suc 0)) (Suc 0) adapters0 (\<lambda>k. 0) init_mcts ''X'' = Inr (one_step_state, 1)"
  by (simp add: run_defs one_step_state_def)

lemma one_step_branching: "to_branching unfold_dag one_step_state = Inr [one_step_path]"
  by (simp add: path_defs one_step_state_def one_step_path_def init_mcts_def node_of_def
        numeral_3_eq_3)

lemma one_step_target: "find_target one_step_state [one_step_path] = Inr one_step_path"
  by (simp add: path_defs one_step_state_def one_step_path_def)

lemma one_step_valid_paths:
  "valid_paths (get_paths one_step_path (Some (max_depth one_step_state))) = Inr [one_step_path]"
  by (simp add: path_defs one_step_state_def one_step_path_def init_mcts_def)

subsection \<open>C6: the paths returned end in terminal chemicals\<close>

lemma all_m_True: "all_m f xs = Inr True \<Longrightarrow> x \<in> set xs \<Longrightarrow> f x = Inr True"
  by (induction xs) (auto split: sum.splits if_splits)

lemma validate_all_sound:
  "validate_all ps = Inr vs \<Longrightarrow> p \<in> set vs \<Longrightarrow> p \<in> set ps \<and> validate_path p = Inr True"
  by (induction ps arbitrary: vs) (auto split: sum.splits if_splits)

lemma validate_path_leaves:
  assumes "validate_path p = Inr True" "(src, d) \<in> set (leaves p)"
  shows "\<exists>c. d = Chemical c \<and> truthy (terminal c)"
  using all_m_True[OF assms(1)[unfolded validate_path_def] assms(2)]
  by (auto split: node.splits)

lemma chems_depth_le: "(\<And>c. c \<in> set cs \<Longrightarrow> chem_depth c \<le> k) \<Longrightarrow> chems_depth cs \<le> k"
  by (induction cs) auto

lemma product_lists_member:
  "combo \<in> set (product_lists pss) \<Longrightarrow> c \<in> set combo \<Longrightarrow> \<exists>ps \<in> set pss. c \<in> set ps"
  by (induction pss arbitrary: combo) fastforce+

text \<open>
  A path generated at depth \<open>d\<close> under the bound \<open>m\<close> is at most \<open>m - d\<close> deep; the four
  statements follow the four mutually recursive functions.
\<close>

lemma get_paths_depth:
  fixes m :: int
  shows "p \<in> set (fst (get_chem_paths (Some m) t d)) \<Longrightarrow> int d \<le> m
          \<Longrightarrow> int (chem_depth p) + int d \<le> m"
    and "p \<in> set (fst (chem_via_rxns (Some m) x rs d)) \<Longrightarrow> int d < m
          \<Longrightarrow> int (chem_depth p) + int d \<le> m"
    and "p \<in> set (fst (get_rxn_paths (Some m) r d')) \<Longrightarrow> int d' \<le> m
          \<Longrightarrow> int (rxn_depth p) + int d' \<le> m + 1"
    and "rxn_child_paths (Some m) cs d'' = Inr pss \<Longrightarrow> ps \<in> set pss \<Longrightarrow> p \<in> set ps
          \<Longrightarrow> int d'' \<le> m \<Longrightarrow> int (chem_depth p) + int d'' \<le> m"
proof (induction "Some m" t d and "Some m" x rs d and "Some m" r d' and "Some m" cs d''
       arbitrary: p and p and p and p ps pss
       rule: get_chem_paths_chem_via_rxns_get_rxn_paths_rxn_child_paths.induct)
  case (1 x cs depth)
  then show ?case by (auto split: if_splits)
next
  case (2 x depth)
  then show ?case by simp
next
  case (3 x r rs depth)
  then show ?case
    by (auto split: prod.splits option.splits)
next
  case (4 x cs depth)
  show ?case
  proof (cases "rxn_child_paths (Some m) cs depth")
    case (Inl e)
    with 4 show ?thesis by simp
  next
    case (Inr pss)
    with 4(2) obtain combo where p: "p = RNode x combo" and combo: "combo \<in> set (product_lists pss)"
      by (auto split: if_splits)
    have "chem_depth c \<le> nat (m - int depth)" if "c \<in> set combo" for c
    proof -
      from product_lists_member[OF combo that] obtain ps where "ps \<in> set pss" "c \<in> set ps"
        by blast
      from 4(1)[OF Inr this 4(3)] show ?thesis by linarith
    qed
    from chems_depth_le[of combo, OF this] p 4(3) show ?thesis by simp
  qed
next
  case (5 depth)
  then show ?case by simp
next
  case (6 c cs depth)
  then show ?case
    by (auto split: prod.splits option.splits sum.splits)
qed

text \<open>
  C6: every path that \<open>get_buyable_paths\<close> returns has only leaves that are chemical nodes
  with a true \<open>terminal\<close>, and its depth, counted in reactions, is at most \<open>max_depth\<close>
  (a bound that is not negative, as the specification types it).
\<close>

theorem buyable_paths_terminal_leaves:
  assumes "get_buyable_paths dag s fmt = Inr ps"
    and "0 \<le> max_depth s"
    and "p \<in> set (paths_of ps)"
  shows "(\<forall>(src, d) \<in> set (leaves p). \<exists>c. d = Chemical c \<and> truthy (terminal c))
       \<and> int (chem_depth p) \<le> max_depth s"
proof -
  from assms(1) obtain forest rt vs where rt: "find_target s forest = Inr rt"
    and vp: "valid_paths (get_paths rt (Some (max_depth s))) = Inr vs"
    and ps: "paths_of ps = vs"
    by (auto simp: get_buyable_paths_def ebind_eq_Inr Let_def split: if_splits)
  obtain gs err where g: "get_chem_paths (Some (max_depth s)) rt 0 = (gs, err)"
    by (cases "get_chem_paths (Some (max_depth s)) rt 0")
  with vp have va: "validate_all gs = Inr vs"
    by (auto simp: valid_paths_def get_paths_def ebind_eq_Inr split: option.splits)
  from validate_all_sound[OF va] assms(3) ps
  have pg: "p \<in> set gs" and ok: "validate_path p = Inr True"
    by auto
  from get_paths_depth(1)[of p "max_depth s" rt 0] pg g assms(2)
  have "int (chem_depth p) \<le> max_depth s" by simp
  with validate_path_leaves[OF ok] show ?thesis by auto
qed

text \<open>C6 on the one-step route: the path ends in the buyable \<^verbatim>\<open>A\<close> and is one reaction deep.\<close>

theorem buyable_paths_terminal_leaves_witness:
  "get_buyable_paths unfold_dag one_step_state ''json'' = Inr (JsonPaths [one_step_path])
   \<and> 0 \<le> max_depth one_step_state
   \<and> map fst (leaves one_step_path) = [''A'']
   \<and> chem_depth one_step_path = 1
   \<and> list_all (\<lambda>(src, d). \<exists>c. d = Chemical c \<and> truthy (terminal c)) (leaves one_step_path)
   \<and> int (chem_depth one_step_path) \<le> max_depth one_step_state"
proof -
  have run: "get_buyable_paths unfold_dag one_step_state ''json'' = Inr (JsonPaths [one_step_path])"
    by (simp add: get_buyable_paths_def one_step_branching one_step_target one_step_valid_paths)
  have md: "0 \<le> max_depth one_step_state"
    by (simp add: one_step_state_def init_mcts_def)
  have mem: "one_step_path \<in> set (paths_of (JsonPaths [one_step_path]))"
    by simp
  have ev: "map fst (leaves one_step_path) = [''A'']" "chem_depth one_step_path = 1"
    by (simp_all add: one_step_path_def)
  from buyable_paths_terminal_leaves[OF run md mem] run md ev show ?thesis
    by (simp add: list_all_iff)
qed

subsection \<open>C7: the format of the result\<close>

text \<open>
  C7: \<open>get_buyable_paths\<close> returns the candidate trees for the formats \<^verbatim>\<open>json\<close> and
  \<^verbatim>\<open>graph\<close>, whenever the branching is built, the target is found in it and the
  enumeration of the paths raises nothing; for every other format it returns no result but
  an error, which is the ValueError of the format test once the branching is built and the
  target found.
\<close>

theorem get_buyable_paths_format:
  "(fmt \<noteq> ''json'' \<and> fmt \<noteq> ''graph'' \<longrightarrow> (\<exists>e. get_buyable_paths dag s fmt = Inl e))
   \<and> (\<forall>forest rt. to_branching dag s = Inr forest \<and> find_target s forest = Inr rt \<longrightarrow>
        (fmt \<noteq> ''json'' \<and> fmt \<noteq> ''graph'' \<longrightarrow> get_buyable_paths dag s fmt = Inl ValueError)
        \<and> (\<forall>ps. valid_paths (get_paths rt (Some (max_depth s))) = Inr ps \<longrightarrow>
             get_buyable_paths dag s ''json'' = Inr (JsonPaths ps)
             \<and> get_buyable_paths dag s ''graph'' = Inr (GraphPaths ps)))"
  by (auto simp: get_buyable_paths_def ebind_def Let_def split: sum.splits)

text \<open>C7 on the one-step route, for the formats \<^verbatim>\<open>json\<close>, \<^verbatim>\<open>graph\<close> and \<^verbatim>\<open>xml\<close>.\<close>

theorem get_buyable_paths_format_witness:
  "get_buyable_paths unfold_dag one_step_state ''json'' = Inr (JsonPaths [one_step_path])
   \<and> get_buyable_paths unfold_dag one_step_state ''graph'' = Inr (GraphPaths [one_step_path])
   \<and> get_buyable_paths unfold_dag one_step_state ''xml'' = Inl ValueError"
proof -
  have fmt: "''xml'' \<noteq> ''json'' \<and> ''xml'' \<noteq> ''graph''"
    by simp
  from get_buyable_paths_format[of "''xml''" unfold_dag one_step_state]
    one_step_branching one_step_target one_step_valid_paths fmt
  show ?thesis
    by blast
qed

subsection \<open>C8: the done-update is idempotent\<close>

lemma successors_set_node [simp]: "successors (set_node s n d) x = successors s x"
  by (auto simp: successors_def map_of_set_node split: option.splits)

lemma out_degree_set_node [simp]: "out_degree (set_node s n d) x = out_degree s x"
  by (simp add: out_degree_def)

lemma chem_of_set_node:
  "chem_of (set_node s n (Chemical c')) x
     = (if x = n then (case map_of (tree s) n of None \<Rightarrow> Inl KeyError | Some y \<Rightarrow> Inr c') else chem_of s x)"
  by (auto simp: chem_of_def map_of_set_node split: option.splits)

lemma set_attrs_twice:
  "map ((\<lambda>(k, d', ss). if k = n then (k, d2, ss) else (k, d', ss))
        \<circ> (\<lambda>(k, d', ss). if k = n then (k, d1, ss) else (k, d', ss))) t
     = map (\<lambda>(k, d', ss). if k = n then (k, d2, ss) else (k, d', ss)) t"
  by (induction t) auto

lemma set_node_twice: "set_node (set_node s n d1) n d2 = set_node s n d2"
  by (simp add: set_node_def set_attrs_twice)

lemma chem_of_map_of: "chem_of s n = Inr c \<Longrightarrow> \<exists>ss. map_of (tree s) n = Some (Chemical c, ss)"
  by (auto simp: chem_of_def split: option.splits node.splits)

lemma chem_of_set_node_eq:
  "chem_of s n = Inr c \<Longrightarrow>
   chem_of (set_node s n (Chemical c')) x = (if x = n then Inr c' else chem_of s x)"
proof -
  assume "chem_of s n = Inr c"
  from chem_of_map_of[OF this] obtain ss where "map_of (tree s) n = Some (Chemical c, ss)"
    by blast
  then show ?thesis by (simp add: chem_of_set_node)
qed

text \<open>
  Two transfers for \<open>all_m\<close>: a test that is true wherever another is true, and a test that
  returns whenever another returns, with a value that is not greater.
\<close>

lemma all_m_mono:
  assumes "\<And>x b. f x = Inr b \<Longrightarrow> \<exists>b'. g x = Inr b' \<and> (b' \<longrightarrow> b)"
    and "all_m f xs = Inr b"
  shows "\<exists>b'. all_m g xs = Inr b' \<and> (b' \<longrightarrow> b)"
  using assms(2)
proof (induction xs)
  case Nil
  then show ?case by auto
next
  case (Cons x xs)
  from Cons.prems obtain bx where fx: "f x = Inr bx" by (auto split: sum.splits)
  from assms(1)[OF fx] obtain bx' where gx: "g x = Inr bx'" and le: "bx' \<longrightarrow> bx" by blast
  show ?case
  proof (cases bx')
    case True
    with le fx Cons.prems have "all_m f xs = Inr b" by simp
    from Cons.IH[OF this] gx True show ?thesis by simp
  next
    case False
    with gx have "all_m g (x # xs) = Inr False" by simp
    then show ?thesis by blast
  qed
qed

lemma all_m_True_transfer:
  assumes "\<And>x. f x = Inr True \<Longrightarrow> g x = Inr True"
    and "all_m f xs = Inr True"
  shows "all_m g xs = Inr True"
  using assms(2)
  by (induction xs) (auto split: sum.splits if_splits simp: assms(1))

lemma is_chemical_done_set_done:
  assumes "chem_of s n = Inr c"
  shows "is_chemical_done (set_node s n (Chemical (c\<lparr>chem_done := Some d\<rparr>))) x
           = (if x = n then Inr d else is_chemical_done s x)"
  using assms
  by (simp add: is_chemical_done_def chem_of_set_node_eq)

lemma reaction_done_cases:
  "is_reaction_done s x = Inr b \<longleftrightarrow>
     (\<exists>ss. successors s x = Inr ss \<and> (if ss = [] then \<not> b else all_m (is_chemical_done s) ss = Inr b))"
proof (cases "successors s x")
  case (Inl e)
  then show ?thesis by (simp add: is_reaction_done_def out_degree_def)
next
  case (Inr ss)
  then show ?thesis by (cases ss) (simp_all add: is_reaction_done_def out_degree_def)
qed

text \<open>
  Storing the value \<open>d\<close> just computed from the reaction children of \<open>n\<close> as the flag of \<open>n\<close>
  does not change that value, also when \<open>n\<close> is its own grandchild: a flag lowered to false
  can only lower the conjunction, which is false already; a flag raised to true was not
  read as false before.
\<close>

lemma reactions_done_stable:
  assumes c: "chem_of s n = Inr c"
    and r: "all_m (is_reaction_done s) rs = Inr d"
  shows "all_m (is_reaction_done (set_node s n (Chemical (c\<lparr>chem_done := Some d\<rparr>)))) rs = Inr d"
proof (cases d)
  case True
  let ?s' = "set_node s n (Chemical (c\<lparr>chem_done := Some True\<rparr>))"
  have chem: "is_chemical_done ?s' x = Inr True" if "is_chemical_done s x = Inr True" for x
    using that by (simp add: is_chemical_done_set_done[OF c])
  have "is_reaction_done ?s' x = Inr True" if "is_reaction_done s x = Inr True" for x
  proof -
    from that obtain ss where ss: "successors s x = Inr ss" "ss \<noteq> []"
      and a: "all_m (is_chemical_done s) ss = Inr True"
      by (auto simp: reaction_done_cases split: if_splits)
    from all_m_True_transfer[of "is_chemical_done s" "is_chemical_done ?s'", OF chem a] ss
    show ?thesis by (simp add: reaction_done_cases)
  qed
  from all_m_True_transfer[of "is_reaction_done s" "is_reaction_done ?s'", OF this] r True
  show ?thesis by simp
next
  case False
  let ?s' = "set_node s n (Chemical (c\<lparr>chem_done := Some False\<rparr>))"
  have chem: "\<exists>b'. is_chemical_done ?s' x = Inr b' \<and> (b' \<longrightarrow> b)"
    if "is_chemical_done s x = Inr b" for x b
    using that by (auto simp: is_chemical_done_set_done[OF c])
  have rx: "\<exists>b'. is_reaction_done ?s' x = Inr b' \<and> (b' \<longrightarrow> b)"
    if "is_reaction_done s x = Inr b" for x b
  proof -
    from that obtain ss where ss: "successors s x = Inr ss"
      and a: "if ss = [] then \<not> b else all_m (is_chemical_done s) ss = Inr b"
      by (auto simp: reaction_done_cases)
    show ?thesis
    proof (cases "ss = []")
      case True
      with ss have "is_reaction_done ?s' x = Inr False" by (simp add: reaction_done_cases)
      then show ?thesis by blast
    next
      case False
      with a have "all_m (is_chemical_done s) ss = Inr b" by simp
      from all_m_mono[of "is_chemical_done s" "is_chemical_done ?s'", OF chem this]
      obtain b' where "all_m (is_chemical_done ?s') ss = Inr b'" "b' \<longrightarrow> b" by blast
      with ss False have "is_reaction_done ?s' x = Inr b'" by (simp add: reaction_done_cases)
      with \<open>b' \<longrightarrow> b\<close> show ?thesis by blast
    qed
  qed
  from all_m_mono[of "is_reaction_done s" "is_reaction_done ?s'", OF rx r]
  obtain b' where "all_m (is_reaction_done ?s') rs = Inr b'" "b' \<longrightarrow> d" by blast
  with False show ?thesis by simp
qed

text \<open>
  C8: when the done-update of a node returns, running it again on the state it left returns
  the same value and leaves that state as it is.
\<close>

theorem update_done_idempotent:
  assumes "is_chemical_done_update s n = Inr (d, s')"
  shows "is_chemical_done_update s' n = Inr (d, s')"
proof -
  from assms obtain c where c: "chem_of s n = Inr c" and cd: "compute_done s n c = Inr d"
    and s': "s' = set_node s n (Chemical (c\<lparr>chem_done := Some d\<rparr>))"
    by (auto simp: is_chemical_done_update_def ebind_eq_Inr)
  let ?c' = "c\<lparr>chem_done := Some d\<rparr>"
  let ?s' = "set_node s n (Chemical ?c')"
  from c have c': "chem_of ?s' n = Inr ?c'"
    by (simp add: chem_of_set_node_eq)
  have cfg: "max_depth ?s' = max_depth s" "max_branching ?s' = max_branching s"
    by (simp_all add: set_node_def)
  have eq: "compute_done ?s' n ?c' =
     (if truthy (terminal c) then Inr True
      else if length (templates c) = 0 then Inr True
      else if (case min_depth c of None \<Rightarrow> False | Some k \<Rightarrow> max_depth s \<le> int k) then Inr True
      else ebind (out_degree s n) (\<lambda>deg.
        if max_branching s \<le> int deg \<or> length (explored c) = length (templates c)
        then ebind (successors s n) (all_m (is_reaction_done ?s'))
        else Inr False))"
    unfolding compute_done_def cfg by (simp cong: if_cong)
  have "compute_done ?s' n ?c' = Inr d"
  proof (cases "truthy (terminal c) \<or> length (templates c) = 0
                 \<or> (case min_depth c of None \<Rightarrow> False | Some k \<Rightarrow> max_depth s \<le> int k)")
    case True
    with cd show ?thesis unfolding eq by (auto simp: compute_done_def split: if_splits)
  next
    case False
    from cd False obtain deg where deg: "out_degree s n = Inr deg"
      by (auto simp: compute_done_def ebind_eq_Inr)
    show ?thesis
    proof (cases "max_branching s \<le> int deg \<or> length (explored c) = length (templates c)")
      case t: True
      with cd False deg obtain rs where rs: "successors s n = Inr rs"
        and all: "all_m (is_reaction_done s) rs = Inr d"
        by (auto simp: compute_done_def ebind_eq_Inr)
      from reactions_done_stable[OF c all] False deg t rs show ?thesis
        unfolding eq by simp
    next
      case f: False
      with cd False deg have "d = False" by (auto simp: compute_done_def)
      with False deg f show ?thesis
        unfolding eq by simp
    qed
  qed
  moreover have "set_node ?s' n (Chemical (?c'\<lparr>chem_done := Some d\<rparr>)) = ?s'"
    by (simp add: set_node_twice)
  ultimately show ?thesis using c' unfolding s'
    by (simp add: is_chemical_done_update_def)
qed

lemma initialize_bare_target:
  "initialize adapters_none init_mcts ''X'' = Inr bare_target_state"
  by (simp add: run_defs adapters_none_def bare_target_state_def)

text \<open>
  C8 on the state that the initialisation leaves for a target without templates: the flag
  is false, the first update makes it true, and the second changes nothing.
\<close>

theorem update_done_idempotent_witness:
  "\<exists>s1. is_chemical_done bare_target_state ''X'' = Inr False
     \<and> is_chemical_done_update bare_target_state ''X'' = Inr (True, s1)
     \<and> is_chemical_done s1 ''X'' = Inr True
     \<and> is_chemical_done_update s1 ''X'' = Inr (True, s1)"
proof -
  have d0: "is_chemical_done bare_target_state ''X'' = Inr False"
    by (simp add: bare_target_state_def is_chemical_done_def chem_of_def)
  obtain s1 where s1: "is_chemical_done_update bare_target_state ''X'' = Inr (True, s1)"
    by (simp add: bare_target_state_def init_mcts_def graph_defs create_defs)
  from is_chemical_done_update_chem_of[OF s1] have d1: "is_chemical_done s1 ''X'' = Inr True"
    by (auto simp: is_chemical_done_def)
  from update_done_idempotent[OF s1] d0 d1 s1 show ?thesis by blast
qed

subsection \<open>C10: an outcome whose reaction is already known\<close>

lemma node_of_set_node:
  "node_of (set_node s n d) x = (if x = n then (case map_of (tree s) n of None \<Rightarrow> Inl KeyError | Some y \<Rightarrow> Inr d) else node_of s x)"
  by (auto simp: node_of_def map_of_set_node split: option.splits)

lemma node_of_Reaction_map_of:
  "node_of s x = Inr (Reaction r) \<Longrightarrow> \<exists>ss. map_of (tree s) x = Some (Reaction r, ss)"
  by (auto simp: node_of_def split: option.splits)

lemma add_chemical_keeps_reaction:
  assumes "add_chemical s y c = Inr s'" and "node_of s x = Inr (Reaction r)"
  shows "node_of s' x = Inr (Reaction r) \<and> reactions s' = reactions s"
proof -
  from node_of_Reaction_map_of[OF assms(2)] obtain ss where m: "map_of (tree s) x = Some (Reaction r, ss)"
    by blast
  with assms(1) have ne: "y \<noteq> x"
    by (auto simp: add_chemical_def)
  show ?thesis
  proof (cases "map_of (tree s) y")
    case None
    with assms(1) have "s' = s\<lparr>tree := tree s @ [(y, Chemical c, [])]\<rparr>"
      by (simp add: add_chemical_def)
    with m show ?thesis by (simp add: node_of_def)
  next
    case (Some e)
    with assms(1) obtain c' where "s' = set_node s y (Chemical c')"
      by (auto simp: add_chemical_def split: node.splits prod.splits)
    with ne assms(2) show ?thesis
      by (simp add: node_of_set_node) (simp add: set_node_def)
  qed
qed

lemma is_chemical_done_update_keeps_reaction:
  assumes "is_chemical_done_update s y = Inr (d, s')" and "node_of s x = Inr (Reaction r)"
  shows "node_of s' x = Inr (Reaction r) \<and> reactions s' = reactions s"
proof -
  from assms(1) obtain c where c: "chem_of s y = Inr c"
    and s': "s' = set_node s y (Chemical (c\<lparr>chem_done := Some d\<rparr>))"
    by (auto simp: is_chemical_done_update_def ebind_eq_Inr)
  from c assms(2) have "y \<noteq> x"
    by (auto simp: chem_of_def node_of_def split: option.splits node.splits)
  with assms(2) show ?thesis
    by (simp add: s' node_of_set_node) (simp add: set_node_def)
qed

lemma create_chemical_node_keeps_reaction:
  assumes "create_chemical_node a s y = Inr s'" and "node_of s x = Inr (Reaction r)"
  shows "node_of s' x = Inr (Reaction r) \<and> reactions s' = reactions s"
proof -
  from assms(1) obtain s1 d c0 where
    1: "add_chemical (s\<lparr>chemicals := chemicals s @ [y]\<rparr>) y c0 = Inr s1"
    and 2: "is_chemical_done_update s1 y = Inr (d, s')"
    by (auto simp: create_chemical_node_def ebind_eq_Inr Let_def split: prod.splits)
  from assms(2) have "node_of (s\<lparr>chemicals := chemicals s @ [y]\<rparr>) x = Inr (Reaction r)"
    by (simp add: node_of_def)
  from add_chemical_keeps_reaction[OF 1 this]
  have k: "node_of s1 x = Inr (Reaction r)" "reactions s1 = reactions s"
    by simp_all
  from is_chemical_done_update_keeps_reaction[OF 2 k(1)] k(2) show ?thesis
    by simp
qed

lemma check_reactants_keeps_reaction:
  "check_reactants a s path rs = Inr (ok, s') \<Longrightarrow> node_of s x = Inr (Reaction r)
     \<Longrightarrow> node_of s' x = Inr (Reaction r) \<and> reactions s' = reactions s
         \<and> ok = (\<not> list_ex (\<lambda>c. c \<in> set path) rs)"
proof (induction rs arbitrary: s)
  case Nil
  then show ?case by simp
next
  case (Cons y rs)
  show ?case
  proof (cases "y \<in> set path")
    case True
    with Cons.prems show ?thesis by simp
  next
    case False
    with Cons.prems obtain s1 where
      1: "(if y \<notin> set (chemicals s) then create_chemical_node a s y else Inr s) = Inr s1"
      and 2: "check_reactants a s1 path rs = Inr (ok, s')"
      by (auto split: sum.splits)
    from 1 Cons.prems(2) create_chemical_node_keeps_reaction[of a s y s1 x r]
    have n1: "node_of s1 x = Inr (Reaction r)" and r1: "reactions s1 = reactions s"
      by (auto split: if_splits)
    from Cons.IH[OF 2 n1] r1 False show ?thesis by simp
  qed
qed

lemma map_of_add_succ:
  "map_of (map (\<lambda>(k, d', ss'). if k = u then (k, d', ss' @ [v]) else (k, d', ss')) t) x
     = (if x = u then map_option (\<lambda>(d', ss'). (d', ss' @ [v])) (map_of t x) else map_of t x)"
  by (induction t) auto

lemma add_edge_keeps_nodes:
  "add_edge s u v = Inr s' \<Longrightarrow> node_of s' x = node_of s x \<and> reactions s' = reactions s"
  by (auto simp: add_edge_def node_of_def map_of_add_succ split: option.splits prod.splits if_splits)

lemma add_edges_keeps_nodes:
  "add_edges s u vs = Inr s' \<Longrightarrow> node_of s' x = node_of s x \<and> reactions s' = reactions s"
proof (induction vs arbitrary: s)
  case Nil
  then show ?case by simp
next
  case (Cons v vs)
  then obtain s1 where 1: "add_edge s u v = Inr s1" and 2: "add_edges s1 u vs = Inr s'"
    by (auto split: sum.splits)
  from add_edge_keeps_nodes[OF 1] Cons.IH[OF 2] show ?case by simp
qed

lemma register_existing_reaction:
  assumes "register_reaction s x template tscore score = Inr s'"
    and "x \<in> set (reactions s)" and "node_of s x = Inr (Reaction r)"
  shows "node_of s' x = Inr (Reaction (r\<lparr>rxn_templates := rxn_templates r @ [template],
                                          template_score := max (template_score r) tscore\<rparr>))"
  using assms node_of_Reaction_map_of[OF assms(3)]
  by (auto simp: register_reaction_def node_of_set_node)

lemma process_outcome_cases:
  assumes po: "process_outcome a s tgt template path rl = Inr s'"
  shows "(fast_filter a (join_dot rl) tgt < fast_filter_threshold s \<and> s' = s)
    \<or> (\<not> fast_filter a (join_dot rl) tgt < fast_filter_threshold s
        \<and> check_reactants a s path rl = Inr (False, s'))
    \<or> (\<not> fast_filter a (join_dot rl) tgt < fast_filter_threshold s
        \<and> (\<exists>s1 tc tscore s2 s3. check_reactants a s path rl = Inr (True, s1)
             \<and> node_of s1 tgt = Inr (Chemical tc) \<and> map_of (templates tc) template = Some tscore
             \<and> register_reaction s1 (join_dot rl @ ''>>'' @ tgt) template tscore
                  (fast_filter a (join_dot rl) tgt) = Inr s2
             \<and> add_edge s2 tgt (join_dot rl @ ''>>'' @ tgt) = Inr s3
             \<and> add_edges s3 (join_dot rl @ ''>>'' @ tgt) rl = Inr s'))"
proof (cases "fast_filter a (join_dot rl) tgt < fast_filter_threshold s")
  case True
  with po show ?thesis by (simp add: process_outcome_def Let_def)
next
  case False
  show ?thesis
  proof (cases "check_reactants a s path rl")
    case (Inl e)
    with po False show ?thesis by (simp add: process_outcome_def Let_def)
  next
    case (Inr p)
    obtain ok s1 where p: "p = (ok, s1)" by (cases p)
    show ?thesis
    proof (cases ok)
      case f: False
      with po False Inr p show ?thesis by (simp add: process_outcome_def Let_def)
    next
      case True
      note ev = po False Inr p True
      from ev obtain td where td: "node_of s1 tgt = Inr td"
        by (cases "node_of s1 tgt") (simp_all add: process_outcome_def Let_def)
      with ev obtain tc where tc: "td = Chemical tc"
        by (cases td) (simp_all add: process_outcome_def Let_def)
      with ev td obtain tscore where ts: "map_of (templates tc) template = Some tscore"
        by (cases "map_of (templates tc) template") (simp_all add: process_outcome_def Let_def)
      with ev td tc obtain s2 s3 where
        "register_reaction s1 (join_dot rl @ ''>>'' @ tgt) template tscore
                  (fast_filter a (join_dot rl) tgt) = Inr s2"
        "add_edge s2 tgt (join_dot rl @ ''>>'' @ tgt) = Inr s3"
        "add_edges s3 (join_dot rl @ ''>>'' @ tgt) rl = Inr s'"
        by (auto simp: process_outcome_def Let_def ebind_eq_Inr)
      with False Inr p True td tc ts show ?thesis
        by auto
    qed
  qed
qed

text \<open>
  C10: when the outcome of an expansion has the identifier of a reaction that is already
  registered, the reaction node keeps its \<open>fast_filter_score\<close>, \<open>visit_count\<close>,
  \<open>reward_avg\<close> and \<open>reward_tot\<close>; an outcome that is filtered out or abandoned leaves the
  node as it is, and an accepted one appends the template to \<open>templates\<close> and raises
  \<open>template_score\<close> to the greater of the old score and the relevance of the template. The
  fast-filter score computed for the outcome is not stored.
\<close>

theorem existing_reaction_merge:
  assumes "process_outcome a s tgt template path reactant_list = Inr s'"
    and "reaction_smiles = join_dot reactant_list @ ''>>'' @ tgt"
    and "reaction_smiles \<in> set (reactions s)"
    and "node_of s reaction_smiles = Inr (Reaction r)"
  shows "\<exists>r'. node_of s' reaction_smiles = Inr (Reaction r')
      \<and> fast_filter_score r' = fast_filter_score r \<and> visit_count r' = visit_count r
      \<and> reward_avg r' = reward_avg r \<and> reward_tot r' = reward_tot r
      \<and> (if fast_filter a (join_dot reactant_list) tgt < fast_filter_threshold s
             \<or> list_ex (\<lambda>c. c \<in> set path) reactant_list
          then r' = r
          else \<exists>tscore. r' = r\<lparr>rxn_templates := rxn_templates r @ [template],
                                 template_score := max (template_score r) tscore\<rparr>)"
proof -
  from process_outcome_cases[OF assms(1)]
  consider (filtered) "fast_filter a (join_dot reactant_list) tgt < fast_filter_threshold s" "s' = s"
    | (cycle) "\<not> fast_filter a (join_dot reactant_list) tgt < fast_filter_threshold s"
        "check_reactants a s path reactant_list = Inr (False, s')"
    | (accepted) s1 tscore s2 s3 where
        "\<not> fast_filter a (join_dot reactant_list) tgt < fast_filter_threshold s"
        "check_reactants a s path reactant_list = Inr (True, s1)"
        "register_reaction s1 reaction_smiles template tscore
             (fast_filter a (join_dot reactant_list) tgt) = Inr s2"
        "add_edge s2 tgt reaction_smiles = Inr s3"
        "add_edges s3 reaction_smiles reactant_list = Inr s'"
    unfolding assms(2) by blast
  then show ?thesis
  proof cases
    case filtered
    with assms(4) show ?thesis by simp
  next
    case cycle
    from check_reactants_keeps_reaction[OF cycle(2) assms(4)] cycle(1) show ?thesis by simp
  next
    case accepted
    from check_reactants_keeps_reaction[OF accepted(2) assms(4)]
    have k: "node_of s1 reaction_smiles = Inr (Reaction r)" "reactions s1 = reactions s"
      "\<not> list_ex (\<lambda>c. c \<in> set path) reactant_list" by simp_all
    from register_existing_reaction[OF accepted(3)] assms(3) k
    have "node_of s2 reaction_smiles = Inr (Reaction (r\<lparr>rxn_templates := rxn_templates r @ [template],
                                          template_score := max (template_score r) tscore\<rparr>))"
      by simp
    with add_edge_keeps_nodes[OF accepted(4)] add_edges_keeps_nodes[OF accepted(5)]
    have "node_of s' reaction_smiles = Inr (Reaction (r\<lparr>rxn_templates := rxn_templates r @ [template],
                                          template_score := max (template_score r) tscore\<rparr>))"
      by simp
    with accepted(1) k show ?thesis by auto
  qed
qed

text \<open>
  C10 in \<open>merge_state\<close>, with a fast filter that now scores the outcome 0.8: template 8 is
  appended, and the stored fast-filter score stays 0.9.
\<close>

theorem existing_reaction_merge_witness:
  "\<exists>s' r'. process_outcome (adapters_two\<lparr>fast_filter := \<lambda>r p. 8 / 10\<rparr>) merge_state
               ''X'' 8 [''X''] [''A''] = Inr s'
     \<and> node_of s' ''A>>X'' = Inr (Reaction r')
     \<and> rxn_templates r' = [7, 8] \<and> template_score r' = 6 / 10
     \<and> fast_filter_score r' = 9 / 10 \<and> visit_count r' = 0 \<and> reward_avg r' = 0 \<and> reward_tot r' = 0"
proof -
  let ?a = "adapters_two\<lparr>fast_filter := \<lambda>r p. 8 / 10\<rparr>"
  let ?r = "\<lparr> reward_avg = 0, reward_tot = 0, visit_count = 0,
              fast_filter_score = 9 / 10, template_score = 6 / 10, rxn_templates = [7] \<rparr>"
  obtain s' where run: "process_outcome ?a merge_state ''X'' 8 [''X''] [''A''] = Inr s'"
    by (simp add: run_defs adapters_two_def merge_state_def)
  have ev: "ebind (process_outcome ?a merge_state ''X'' 8 [''X''] [''A''])
              (\<lambda>s. ebind (node_of s ''A>>X'') (\<lambda>d. case d of
                  Reaction r \<Rightarrow> Inr (template_score r) | Chemical c \<Rightarrow> Inl KeyError)) = Inr (6 / 10)"
    by (simp add: run_defs adapters_two_def merge_state_def)
  have h2: "''A>>X'' = join_dot [''A''] @ ''>>'' @ ''X''"
    by simp
  have h3: "''A>>X'' \<in> set (reactions merge_state)"
    by (simp add: merge_state_def)
  have h4: "node_of merge_state ''A>>X'' = Inr (Reaction ?r)"
    by (simp add: merge_state_def node_of_def)
  have cond: "\<not> (fast_filter ?a (join_dot [''A'']) ''X'' < fast_filter_threshold merge_state
                 \<or> list_ex (\<lambda>c. c \<in> set [''X'']) [''A''])"
    by (simp add: merge_state_def init_mcts_def)
  from existing_reaction_merge[OF run h2 h3 h4] cond obtain r' tscore where
    n: "node_of s' ''A>>X'' = Inr (Reaction r')"
    and fr: "fast_filter_score r' = 9 / 10" "visit_count r' = 0" "reward_avg r' = 0" "reward_tot r' = 0"
    and up: "r' = ?r\<lparr>rxn_templates := rxn_templates ?r @ [8], template_score := max (template_score ?r) tscore\<rparr>"
    by auto
  from up have tm: "rxn_templates r' = [7, 8]"
    by simp
  from ev run n have "template_score r' = 6 / 10"
    by simp
  with run n fr tm show ?thesis
    by blast
qed

text \<open>The same merge in a run of \<open>build_tree\<close>: two rollouts, one reaction with both templates.\<close>

lemma build_tree_merges_templates:
  "ebind (build_tree (Suc (Suc (Suc 0))) (Suc 0) adapters_two (\<lambda>k. 0) init_mcts ''X'')
         (\<lambda>(s, n). ebind (node_of s ''A>>X'') (\<lambda>d. Inr (n, reactions s, d)))
     = Inr (2, [''A>>X''], Reaction \<lparr> reward_avg = 0, reward_tot = 0, visit_count = 0,
              fast_filter_score = 9 / 10, template_score = 6 / 10, rxn_templates = [7, 8] \<rparr>)"
  by (simp add: run_defs adapters_two_def)

subsection \<open>C5: the score of an unexplored template\<close>

lemma Max_max_insert:
  "finite S \<Longrightarrow> Max (insert (max a b) S) = Max (insert a (insert b S))"
  by (cases "S = {}") (auto simp: max.assoc)

text \<open>The first loop of \<open>ucb\<close> leaves the greatest reward of the reactions it did not skip.\<close>

lemma ucb_reactions_max:
  "ucb_reactions s tmpl vc path w rs (m0, o0) = Inr (m, opts)
     \<Longrightarrow> m = Max (set (m0 # map (reward_of s) (considered s path rs)))"
proof (induction rs arbitrary: m0 o0)
  case Nil
  then show ?case by (simp add: considered_def)
next
  case (Cons x rs)
  from Cons.prems obtain d skip where d: "node_of s x = Inr d" and sk: "ucb_skip s path x = Inr skip"
    by (auto split: sum.splits)
  show ?case
  proof (cases skip)
    case True
    with Cons.prems d sk have "ucb_reactions s tmpl vc path w rs (m0, o0) = Inr (m, opts)"
      by simp
    from Cons.IH[OF this] sk True show ?thesis
      by (simp add: considered_def)
  next
    case False
    with Cons.prems d sk obtain r ps where r: "d = Reaction r"
      and rec: "ucb_reactions s tmpl vc path w rs (max m0 (reward_avg r),
                  o0 @ [(- reward_avg r + w * (sum_list ps * real vc / (1 + real (visit_count r))), x)])
                = Inr (m, opts)"
      by (auto split: sum.splits node.splits simp: Let_def)
    from d r have rw: "reward_of s x = reward_avg r"
      by (auto simp: node_of_def reward_of_def split: option.splits)
    from Cons.IH[OF rec] sk False rw show ?thesis
      by (simp add: considered_def Max_max_insert)
  qed
qed

text \<open>The engine never records a reward: every node it writes has the average reward 0.\<close>

lemma reward_of_node_reward:
  "reward_of s n = (case map_of (tree s) n of None \<Rightarrow> 0 | Some (d, ss) \<Rightarrow> node_reward d)"
  by (auto simp: reward_of_def split: option.splits node.splits)

lemma rewards_zero_node:
  "rewards_zero s \<Longrightarrow> node_of s n = Inr d \<Longrightarrow> node_reward d = 0"
  by (auto simp: rewards_zero_def reward_of_node_reward node_of_def split: option.splits dest: spec[of _ n])

lemma rewards_zero_chem:
  "rewards_zero s \<Longrightarrow> chem_of s n = Inr c \<Longrightarrow> reward_avg c = 0"
  by (auto simp: rewards_zero_def reward_of_node_reward chem_of_def split: option.splits node.splits dest: spec[of _ n])

lemma rewards_zero_set_node:
  "rewards_zero s \<Longrightarrow> node_reward d = 0 \<Longrightarrow> rewards_zero (set_node s n d)"
  by (auto simp: rewards_zero_def reward_of_node_reward map_of_set_node split: option.splits)

lemma rewards_zero_append:
  "rewards_zero s \<Longrightarrow> node_reward d = 0 \<Longrightarrow> rewards_zero (s\<lparr>tree := tree s @ [(n, d, ss)]\<rparr>)"
  by (auto simp: rewards_zero_def reward_of_node_reward map_add_def split: option.splits)

lemma rewards_zero_fields:
  "rewards_zero (s\<lparr>chemicals := cs\<rparr>) = rewards_zero s"
  "rewards_zero (s\<lparr>reactions := rs\<rparr>) = rewards_zero s"
  "rewards_zero (s\<lparr>target := t\<rparr>) = rewards_zero s"
  by (simp_all add: rewards_zero_def reward_of_def)

lemma rewards_zero_add_chemical:
  assumes "rewards_zero s" "reward_avg c = 0" "add_chemical s n c = Inr s'"
  shows "rewards_zero s'"
proof (cases "map_of (tree s) n")
  case None
  with assms(3) have "s' = s\<lparr>tree := tree s @ [(n, Chemical c, [])]\<rparr>"
    by (simp add: add_chemical_def)
  with assms(1,2) show ?thesis
    by (simp add: rewards_zero_append)
next
  case (Some e)
  obtain d ss where e: "e = (d, ss)" by (cases e)
  with assms(3) Some obtain old where "d = Chemical old"
    by (cases d) (simp_all add: add_chemical_def)
  with assms(3) Some e have "s' = set_node s n (Chemical (c\<lparr>chem_done := chem_done old\<rparr>))"
    by (simp add: add_chemical_def)
  with assms(1,2) show ?thesis
    by (simp add: rewards_zero_set_node)
qed

lemma rewards_zero_add_reaction:
  assumes "rewards_zero s" "reward_avg r = 0" "add_reaction s n r = Inr s'"
  shows "rewards_zero s'"
proof (cases "map_of (tree s) n")
  case None
  with assms(3) have "s' = s\<lparr>tree := tree s @ [(n, Reaction r, [])]\<rparr>"
    by (simp add: add_reaction_def)
  with assms(1,2) show ?thesis
    by (simp add: rewards_zero_append)
next
  case (Some e)
  obtain d ss where e: "e = (d, ss)" by (cases e)
  with assms(3) Some obtain old where "d = Reaction old"
    by (cases d) (simp_all add: add_reaction_def)
  with assms(3) Some e have "s' = set_node s n (Reaction r)"
    by (simp add: add_reaction_def)
  with assms(1,2) show ?thesis
    by (simp add: rewards_zero_set_node)
qed

lemma rewards_zero_done_update:
  assumes "rewards_zero s" "is_chemical_done_update s n = Inr (d, s')"
  shows "rewards_zero s'"
proof -
  from assms(2) obtain c where c: "chem_of s n = Inr c"
    and s': "s' = set_node s n (Chemical (c\<lparr>chem_done := Some d\<rparr>))"
    by (auto simp: is_chemical_done_update_def ebind_eq_Inr)
  from rewards_zero_chem[OF assms(1) c]
  have "node_reward (Chemical (c\<lparr>chem_done := Some d\<rparr>)) = 0"
    by simp
  from rewards_zero_set_node[OF assms(1) this] show ?thesis
    by (simp add: s')
qed

lemma rewards_zero_create:
  assumes "rewards_zero s" "create_chemical_node a s y = Inr s'"
  shows "rewards_zero s'"
proof -
  obtain probs indices where
    pr: "predict a y (template_max_count s) (template_max_cum_prob s) = (probs, indices)"
    by (cases "predict a y (template_max_count s) (template_max_cum_prob s)")
  let ?c0 = "\<lparr> reward_avg = 0, reward_tot = 0, visit_count = 0, explored = [], min_depth = None,
              purchase_price = lookup_smiles a y, templates = make_templates indices probs,
              terminal = is_terminal s y (lookup_smiles a y), chem_done = None \<rparr>"
  from assms(2) pr obtain s1 where
    1: "add_chemical (s\<lparr>chemicals := chemicals s @ [y]\<rparr>) y ?c0 = Inr s1"
    by (cases "add_chemical (s\<lparr>chemicals := chemicals s @ [y]\<rparr>) y ?c0")
       (simp_all add: create_chemical_node_def Let_def)
  with assms(2) pr obtain d where 2: "is_chemical_done_update s1 y = Inr (d, s')"
    by (cases "is_chemical_done_update s1 y")
       (auto simp: create_chemical_node_def Let_def)
  from assms(1) have "rewards_zero (s\<lparr>chemicals := chemicals s @ [y]\<rparr>)"
    by (simp add: rewards_zero_fields)
  from rewards_zero_add_chemical[OF this _ 1] have "rewards_zero s1"
    by simp
  from rewards_zero_done_update[OF this 2] show ?thesis .
qed

lemma rewards_zero_check_reactants:
  "rewards_zero s \<Longrightarrow> check_reactants a s path rs = Inr (ok, s') \<Longrightarrow> rewards_zero s'"
proof (induction rs arbitrary: s)
  case Nil
  then show ?case by simp
next
  case (Cons y rs)
  show ?case
  proof (cases "y \<in> set path")
    case True
    with Cons.prems show ?thesis by simp
  next
    case False
    with Cons.prems obtain s1 where
      1: "(if y \<notin> set (chemicals s) then create_chemical_node a s y else Inr s) = Inr s1"
      and 2: "check_reactants a s1 path rs = Inr (ok, s')"
      by (auto split: sum.splits)
    from 1 Cons.prems(1) rewards_zero_create[of s a y s1] have "rewards_zero s1"
      by (auto split: if_splits)
    from Cons.IH[OF this 2] show ?thesis .
  qed
qed

lemma reward_of_node_of:
  "reward_of s n = (case node_of s n of Inl e \<Rightarrow> 0 | Inr d \<Rightarrow> node_reward d)"
  by (auto simp: reward_of_def node_of_def split: option.splits node.splits)

lemma rewards_zero_add_edge:
  assumes "rewards_zero s" "add_edge s u v = Inr s'"
  shows "rewards_zero s'"
proof -
  from add_edge_keeps_nodes[OF assms(2)] have "node_of s' x = node_of s x" for x
    by simp
  with assms(1) show ?thesis
    by (simp add: rewards_zero_def reward_of_node_of)
qed

lemma rewards_zero_add_edges:
  "rewards_zero s \<Longrightarrow> add_edges s u vs = Inr s' \<Longrightarrow> rewards_zero s'"
proof (induction vs arbitrary: s)
  case Nil
  then show ?case by simp
next
  case (Cons v vs)
  from Cons.prems(2) obtain s1 where 1: "add_edge s u v = Inr s1" and 2: "add_edges s1 u vs = Inr s'"
    by (auto split: sum.splits)
  from Cons.IH[OF rewards_zero_add_edge[OF Cons.prems(1) 1] 2] show ?case .
qed

lemma rewards_zero_register:
  assumes "rewards_zero s" "register_reaction s x template tscore score = Inr s'"
  shows "rewards_zero s'"
proof (cases "x \<in> set (reactions s)")
  case True
  with assms(2) obtain d where d: "node_of s x = Inr d"
    by (cases "node_of s x") (simp_all add: register_reaction_def)
  with assms(2) True obtain r where dr: "d = Reaction r"
    by (cases d) (simp_all add: register_reaction_def)
  with assms(2) True d have r: "node_of s x = Inr (Reaction r)"
    and s': "s' = set_node s x (Reaction (r\<lparr>rxn_templates := rxn_templates r @ [template],
                            template_score := max (template_score r) tscore\<rparr>))"
    by (simp_all add: register_reaction_def)
  from rewards_zero_node[OF assms(1) r] show ?thesis
    unfolding s' by (intro rewards_zero_set_node[OF assms(1)]) simp
next
  case False
  with assms(2) have ar: "add_reaction (s\<lparr>reactions := reactions s @ [x]\<rparr>) x
             \<lparr> reward_avg = 0, reward_tot = 0, visit_count = 0, fast_filter_score = score,
               template_score = tscore, rxn_templates = [template] \<rparr> = Inr s'"
    by (simp add: register_reaction_def)
  from assms(1) have "rewards_zero (s\<lparr>reactions := reactions s @ [x]\<rparr>)"
    by (simp add: rewards_zero_fields)
  from rewards_zero_add_reaction[OF this _ ar] show ?thesis
    by simp
qed

lemma rewards_zero_process_outcome:
  assumes "rewards_zero s" "process_outcome a s tgt template path rl = Inr s'"
  shows "rewards_zero s'"
proof -
  from process_outcome_cases[OF assms(2)]
  consider "s' = s" | "check_reactants a s path rl = Inr (False, s')"
    | s1 tscore s2 s3 where "check_reactants a s path rl = Inr (True, s1)"
        "register_reaction s1 (join_dot rl @ ''>>'' @ tgt) template tscore
                  (fast_filter a (join_dot rl) tgt) = Inr s2"
        "add_edge s2 tgt (join_dot rl @ ''>>'' @ tgt) = Inr s3"
        "add_edges s3 (join_dot rl @ ''>>'' @ tgt) rl = Inr s'"
    by blast
  then show ?thesis
  proof cases
    case 1
    with assms(1) show ?thesis by simp
  next
    case 2
    from rewards_zero_check_reactants[OF assms(1) 2] show ?thesis .
  next
    case 3
    from rewards_zero_check_reactants[OF assms(1) 3(1)] have "rewards_zero s1" .
    from rewards_zero_register[OF this 3(2)] have "rewards_zero s2" .
    from rewards_zero_add_edge[OF this 3(3)] have "rewards_zero s3" .
    from rewards_zero_add_edges[OF this 3(4)] show ?thesis .
  qed
qed

lemma rewards_zero_process_precursors:
  "rewards_zero s \<Longrightarrow> process_precursors a s tgt template ps path = Inr s' \<Longrightarrow> rewards_zero s'"
proof (induction ps arbitrary: s)
  case Nil
  then show ?case by simp
next
  case (Cons rl ps)
  from Cons.prems(2) obtain s1 where 1: "process_outcome a s tgt template path rl = Inr s1"
    and 2: "process_precursors a s1 tgt template ps path = Inr s'"
    by (auto split: sum.splits)
  from Cons.IH[OF rewards_zero_process_outcome[OF Cons.prems(1) 1] 2] show ?case .
qed

lemma rewards_zero_expand:
  assumes "rewards_zero s" "expand a s chem_path template = Inr s'"
  shows "rewards_zero s'"
proof -
  from assms(2) obtain c where c: "chem_of s (last chem_path) = Inr c"
    and r: "s' = s \<or> process_precursors a
               (set_node s (last chem_path) (Chemical (c\<lparr>explored := explored c @ [template]\<rparr>)))
               (last chem_path) template (get_precursors a (last chem_path) template) chem_path = Inr s'"
    by (auto simp: expand_def Let_def ebind_eq_Inr split: if_splits)
  from rewards_zero_chem[OF assms(1) c]
  have "rewards_zero (set_node s (last chem_path) (Chemical (c\<lparr>explored := explored c @ [template]\<rparr>)))"
    by (intro rewards_zero_set_node[OF assms(1)]) simp
  with r assms(1) rewards_zero_process_precursors show ?thesis by blast
qed

lemma rewards_zero_bump_visit:
  assumes "rewards_zero s" "bump_visit s n = Inr s'"
  shows "rewards_zero s'"
proof -
  from assms(2) obtain d where d: "node_of s n = Inr d"
    and s': "s' = set_node s n (case d of
       Chemical c \<Rightarrow> Chemical (c\<lparr>visit_count := visit_count c + 1\<rparr>)
     | Reaction r \<Rightarrow> Reaction (r\<lparr>visit_count := visit_count r + 1\<rparr>))"
    by (auto simp: bump_visit_def ebind_eq_Inr)
  from rewards_zero_node[OF assms(1) d] show ?thesis
    unfolding s' by (intro rewards_zero_set_node[OF assms(1)]) (cases d, simp_all)
qed

lemma rewards_zero_update_loop:
  "rewards_zero s \<Longrightarrow> update_loop s cs rs = Inr s' \<Longrightarrow> rewards_zero s'"
proof (induction s cs rs rule: update_loop.induct)
  case (1 s)
  then show ?case by simp
next
  case (2 s r rs)
  then show ?case by simp
next
  case (3 s chem i cs rs)
  from "3.prems"(2) obtain cd where cd: "chem_of s chem = Inr cd"
    by (auto split: sum.splits)
  let ?s1 = "set_node s chem (Chemical (cd\<lparr>visit_count := visit_count cd + 1,
                   min_depth := Some (case min_depth cd of None \<Rightarrow> i | Some d \<Rightarrow> min d i)\<rparr>))"
  from "3.prems"(2) cd obtain d s2 where du: "is_chemical_done_update ?s1 chem = Inr (d, s2)"
    by (auto simp: Let_def split: sum.splits prod.splits)
  from rewards_zero_chem[OF "3.prems"(1) cd] have z1: "rewards_zero ?s1"
    by (intro rewards_zero_set_node[OF "3.prems"(1)]) simp
  from rewards_zero_done_update[OF z1 du] have z2: "rewards_zero s2" .
  show ?case
  proof (cases rs)
    case Nil
    with "3.prems"(2) cd du have "update_loop s2 cs [] = Inr s'"
      by (simp add: Let_def)
    from "3.IH"(1)[OF cd refl _ _ Nil z2 this] du show ?thesis by simp
  next
    case (Cons r rs')
    with "3.prems"(2) cd du obtain s3 where bv: "bump_visit s2 r = Inr s3"
      and rec: "update_loop s3 cs rs' = Inr s'"
      by (auto simp: Let_def split: sum.splits)
    from rewards_zero_bump_visit[OF z2 bv] have z3: "rewards_zero s3" .
    from "3.IH"(2)[OF cd refl _ _ Cons bv z3 rec] du show ?thesis by simp
  qed
qed

lemma rewards_zero_rollout:
  assumes "rewards_zero s" "rollout fuel a s = Inr s'"
  shows "rewards_zero s'"
proof -
  from assms(2) obtain cp rp t s1 where e: "expand a s cp t = Inr s1" and u: "update s1 cp rp = Inr s'"
    by (auto simp: rollout_def ebind_eq_Inr)
  from u obtain xs where "update_loop s1 xs (rev rp) = Inr s'"
    by (auto simp: update_def split: list.splits if_splits)
  from rewards_zero_update_loop[OF rewards_zero_expand[OF assms(1) e] this] show ?thesis .
qed

lemma rewards_zero_initialize:
  assumes "rewards_zero s" "initialize a s tgt = Inr s'"
  shows "rewards_zero s'"
proof -
  from assms(2) obtain s1 c where 1: "create_chemical_node a (s\<lparr>target := Some tgt\<rparr>) tgt = Inr s1"
    and c: "chem_of s1 tgt = Inr c"
    and s': "s' = set_node s1 tgt (Chemical (c\<lparr>terminal := PBool False, chem_done := Some False,
                                          visit_count := visit_count c + 1\<rparr>))"
    by (auto simp: initialize_def ebind_eq_Inr)
  from assms(1) have "rewards_zero (s\<lparr>target := Some tgt\<rparr>)"
    by (simp add: rewards_zero_fields)
  from rewards_zero_create[OF this 1] have z: "rewards_zero s1" .
  from rewards_zero_chem[OF z c] show ?thesis
    unfolding s' by (intro rewards_zero_set_node[OF z]) simp
qed

lemma engine_state_rewards_zero: "engine_state a s \<Longrightarrow> rewards_zero s"
proof (induction rule: engine_state.induct)
  case (cleared s)
  then show ?case by (simp add: rewards_zero_def reward_of_def)
next
  case (initialized s tgt s')
  from rewards_zero_initialize[OF initialized.IH initialized.hyps(2)] show ?case .
next
  case (rolled s fuel s')
  from rewards_zero_rollout[OF rolled.IH rolled.hyps(2)] show ?case .
qed

lemma max_reward_zero: "rewards_zero s \<Longrightarrow> max_reward s xs = 0"
proof -
  assume "rewards_zero s"
  then have "reward_of s = (\<lambda>n. 0)"
    by (auto simp: rewards_zero_def)
  then have e: "set (0 # map (reward_of s) xs) = {0::real}"
    by auto
  show ?thesis
    unfolding max_reward_def e by simp
qed

text \<open>
  C5: in every state that the engine reaches, the template options that \<open>ucb\<close> returns for a
  chemical \<open>c\<close> are exactly the unexplored templates \<open>t\<close> of \<open>c\<close>, each scored
  \<open>-(m + 0.1) + w * templates(c)[t] * (1 + sqrt (visit_count c))\<close>, where \<open>m\<close> is the greatest
  of 0 and the average rewards of all the reaction children of \<open>c\<close>.
\<close>

theorem ucb_template_scores:
  assumes "engine_state a s" and "ucb s nd path w = Inr (ropts, topts)"
  shows "\<exists>c rs. chem_of s nd = Inr c \<and> successors s nd = Inr rs \<and>
     set topts = (\<lambda>(t, p). (template_ucb w (max_reward s rs) p (visit_count c), t))
                   ` {(t, p). (t, p) \<in> set (templates c) \<and> t \<notin> set (explored c)}"
proof -
  from assms(2) obtain c rs m ro where c: "chem_of s nd = Inr c" and rs: "successors s nd = Inr rs"
    and ur: "ucb_reactions s (templates c) (visit_count c) path w rs (0, []) = Inr (m, ro)"
    and to: "topts = sort_desc (ucb_templates (templates c) (explored c) (visit_count c) w m)"
    by (auto simp: ucb_def ebind_eq_Inr Let_def split: if_splits)
  note z = engine_state_rewards_zero[OF assms(1)]
  from ucb_reactions_max[OF ur] have "m = max_reward s (considered s path rs)"
    by (simp add: max_reward_def)
  with max_reward_zero[OF z] have m: "m = max_reward s rs"
    by simp
  have "set topts = (\<lambda>(t, p). (template_ucb w m p (visit_count c), t))
                   ` {(t, p). (t, p) \<in> set (templates c) \<and> t \<notin> set (explored c)}"
    unfolding to sort_desc_def ucb_templates_def template_ucb_def
    by (auto simp: image_iff mult.assoc)
  with c rs m show ?thesis by blast
qed

text \<open>The statement after one rollout on \<^verbatim>\<open>X\<close>: template 8 is the unexplored template.\<close>

lemma two_template_run:
  "ebind (initialize adapters_two init_mcts ''X'') (rollout (Suc 0) adapters_two) = Inr two_template_state"
  by (simp add: run_defs adapters_two_def two_template_state_def)

lemma two_template_ucb:
  "ucb two_template_state ''X'' [''X''] 1 = Inr ([], [(template_ucb 1 0 (4 / 10) 2, 8)])"
  by (simp add: run_defs two_template_state_def template_ucb_def)

theorem ucb_template_scores_witness:
  "engine_state adapters_two two_template_state
   \<and> ucb two_template_state ''X'' [''X''] 1 = Inr ([], [(template_ucb 1 0 (4 / 10) 2, 8)])
   \<and> max_reward two_template_state [''A>>X''] = 0
   \<and> (\<exists>c. chem_of two_template_state ''X'' = Inr c \<and> successors two_template_state ''X'' = Inr [''A>>X'']
        \<and> set [(template_ucb 1 0 (4 / 10) 2, 8 :: int)]
          = (\<lambda>(t, p). (template_ucb 1 (max_reward two_template_state [''A>>X'']) p (visit_count c), t))
              ` {(t, p). (t, p) \<in> set (templates c) \<and> t \<notin> set (explored c)})"
proof -
  from two_template_run obtain s0 where i: "initialize adapters_two init_mcts ''X'' = Inr s0"
    and r: "rollout (Suc 0) adapters_two s0 = Inr two_template_state"
    by (auto simp: ebind_eq_Inr)
  have "engine_state adapters_two init_mcts"
    by (rule engine_state.cleared) (simp add: init_mcts_def)
  from engine_state.rolled[OF engine_state.initialized[OF this i] r]
  have es: "engine_state adapters_two two_template_state" .
  have su: "successors two_template_state ''X'' = Inr [''A>>X'']"
    by (simp add: two_template_state_def successors_def)
  have mz: "max_reward two_template_state [''A>>X''] = 0"
    by (simp add: max_reward_def reward_of_def two_template_state_def)
  from ucb_template_scores[OF es two_template_ucb] su
  have "\<exists>c. chem_of two_template_state ''X'' = Inr c \<and> successors two_template_state ''X'' = Inr [''A>>X'']
        \<and> set [(template_ucb 1 0 (4 / 10) 2, 8 :: int)]
          = (\<lambda>(t, p). (template_ucb 1 (max_reward two_template_state [''A>>X'']) p (visit_count c), t))
              ` {(t, p). (t, p) \<in> set (templates c) \<and> t \<notin> set (explored c)}"
    by auto
  with es two_template_ucb mz show ?thesis by blast
qed

subsection \<open>C9: the branching cap is not checked by the expansion\<close>

text \<open>
  C9: with \<open>max_branching = 1\<close>, the target \<^verbatim>\<open>Y\<close> is offered its template, because it has
  no reaction child yet; the single rollout applies it, both outcomes are registered, and
  the target has two reaction children, more than the cap.
\<close>

theorem fan_out_exceeds_cap:
  "ebind (initialize adapters0 (init_mcts\<lparr>max_branching := 1\<rparr>) ''Y'') (\<lambda>s0.
     ebind (rollout (Suc 0) adapters0 s0) (\<lambda>s1.
       ebind (successors s1 ''Y'') (\<lambda>ss.
       ebind (out_degree s1 ''Y'') (\<lambda>deg. Inr (ss, deg, max_branching s1)))))
   = Inr ([''A>>Y'', ''B>>Y''], 2, 1)"
  by (simp add: run_defs)

subsection \<open>C2: nodes left behind by an abandoned outcome\<close>

text \<open>
  C2 says that every node is reachable from the target after any sequence of rollouts,
  an outcome with a cycle being discarded as a whole. In the run below, template 7 gives
  the target \<^verbatim>\<open>Z\<close> the outcome \<^verbatim>\<open>A.Z\<close>: the loop over the reactants creates the chemical
  node \<^verbatim>\<open>A\<close>, then meets \<^verbatim>\<open>Z\<close>, which is on the path, and breaks. No reaction and no edge
  is added, and \<^verbatim>\<open>A\<close> stays in the graph and in the list of chemicals, out of reach of the
  target.
\<close>

theorem cycle_leaves_orphan:
  "ebind (initialize adapters0 init_mcts ''Z'') (\<lambda>s0.
     ebind (rollout (Suc 0) adapters0 s0) (\<lambda>s1.
       Inr (map fst (tree s1), chemicals s1, reactions s1, reachable s1 ''Z'', reachable s1 ''A'')))
   = Inr ([''Z'', ''A''], [''Z'', ''A''], [], True, False)"
  by (simp add: run_defs reachable_def succs_of_def)

end
